theory Spec2Isabelle
  imports Complex_Main
begin

section \<open>PDF text and stamp overlay: a model of streamlit\_app.py\<close>

text \<open>
  The functions of \<^verbatim>\<open>streamlit_app.py\<close> that carry the geometry, the text layout and
  the overlay logic are embedded below, one HOL definition per Python function, with the
  names of the source.

  Conventions of the embedding:
  \<^item> a Python \<^verbatim>\<open>float\<close> is a \<^typ>\<open>real\<close>. The geometry transform is embedded twice: in
    exact arithmetic (\<open>rect_disp_to_rect_pt\<close>, \<open>rect_pt_to_rect_px\<close>), for the
    properties that rounding leaves as they are or that hold up to floating-point
    tolerance, and in binary64 arithmetic (the names ending in \<open>_f64\<close>), where every
    operation is followed by the rounding \<open>f64\<close>. The overlays of the preview are
    embedded in binary64 arithmetic. Infinities and NaN are outside the model;
  \<^item> a Python \<^verbatim>\<open>int\<close> is an \<^typ>\<open>int\<close>;
  \<^item> a Python \<^verbatim>\<open>str\<close> is the list of its Unicode code points;
  \<^item> a raised exception is the \<open>Inl\<close> branch of a sum type.
\<close>

datatype py_error =
  ZeroDivisionError | TypeError | ValueError | AttributeError | IndexError

subsection \<open>Binary64 arithmetic\<close>

text \<open>
  A Python \<^verbatim>\<open>float\<close> is an IEEE 754 binary64 number, and an arithmetic operation returns
  the exact result rounded to the nearest such number, a tie going to the even
  significand. \<open>rne\<close> rounds a real to the nearest integer, ties to even. \<open>f64_exp x\<close> is
  the exponent of the last place of \<open>x\<close>: 52 below the binary exponent of \<open>x\<close>, and not
  below -1074, the last place of the subnormal numbers. \<open>f64\<close> rounds the significand at
  that place. The exponent has no upper bound here: a result of magnitude \<open>2 ^ 1024\<close> or
  more, an infinity in Python, is outside the model. The conversion of an \<^verbatim>\<open>int\<close> to a
  \<^verbatim>\<open>float\<close> and the true division of two \<^verbatim>\<open>int\<close>s round in the same way.
\<close>

definition rne :: "real \<Rightarrow> int" where
  "rne y = (let n = \<lfloor>y\<rfloor>; d = y - of_int n
            in if d < 1/2 then n else if 1/2 < d then n + 1
               else if even n then n else n + 1)"

definition f64_exp :: "real \<Rightarrow> int" where
  "f64_exp x = max (\<lfloor>log 2 \<bar>x\<bar>\<rfloor> - 52) (- 1074)"

definition f64 :: "real \<Rightarrow> real" where
  "f64 x = (if x = 0 then 0
            else sgn x * (of_int (rne (\<bar>x\<bar> / 2 powi f64_exp x)) * 2 powi f64_exp x))"

subsection \<open>Geometry transform\<close>

type_synonym RectPT = "real \<times> real \<times> real \<times> real"

text \<open>\<^verbatim>\<open>a, b = sorted([a, b])\<close> on two floats.\<close>

definition sorted2 :: "real \<Rightarrow> real \<Rightarrow> real \<times> real" where
  "sorted2 a b = (if b < a then (b, a) else (a, b))"

text \<open>
  Lines 38 to 62. The divisions by \<^verbatim>\<open>display_scale\<close>, \<^verbatim>\<open>img_w_px\<close> and \<^verbatim>\<open>img_h_px\<close>
  raise on zero, in the order of the source.
\<close>

definition rect_disp_to_rect_pt ::
  "RectPT \<Rightarrow> real \<Rightarrow> int \<Rightarrow> int \<Rightarrow> real \<Rightarrow> real \<Rightarrow> py_error + RectPT" where
  "rect_disp_to_rect_pt rect_disp display_scale img_w_px img_h_px page_w_pt page_h_pt =
     (case rect_disp of (x0d, y0d, x1d, y1d) \<Rightarrow>
      case sorted2 x0d x1d of (x0d, x1d) \<Rightarrow>
      case sorted2 y0d y1d of (y0d, y1d) \<Rightarrow>
        if display_scale = 0 then Inl ZeroDivisionError
        else
          let x0 = x0d / display_scale;
              y0 = y0d / display_scale;
              x1 = x1d / display_scale;
              y1 = y1d / display_scale;
              x0 = max 0 (min (real_of_int img_w_px) x0);
              x1 = max 0 (min (real_of_int img_w_px) x1);
              y0 = max 0 (min (real_of_int img_h_px) y0);
              y1 = max 0 (min (real_of_int img_h_px) y1)
          in if img_w_px = 0 then Inl ZeroDivisionError
             else if img_h_px = 0 then Inl ZeroDivisionError
             else
               let sx = page_w_pt / real_of_int img_w_px;
                   sy = page_h_pt / real_of_int img_h_px
               in Inr (x0 * sx, y0 * sy, x1 * sx, y1 * sy))"

text \<open>
  Lines 38 to 62 in binary64 arithmetic: the four quotients, the conversions
  \<^verbatim>\<open>float(img_w_px)\<close> and \<^verbatim>\<open>float(img_h_px)\<close> (also where an \<^verbatim>\<open>int\<close> divides a
  \<^verbatim>\<open>float\<close>), the two scale factors and the four products are rounded. \<^verbatim>\<open>min\<close>,
  \<^verbatim>\<open>max\<close> and \<^verbatim>\<open>sorted\<close> return one of their arguments.
\<close>

definition rect_disp_to_rect_pt_f64 ::
  "RectPT \<Rightarrow> real \<Rightarrow> int \<Rightarrow> int \<Rightarrow> real \<Rightarrow> real \<Rightarrow> py_error + RectPT" where
  "rect_disp_to_rect_pt_f64 rect_disp display_scale img_w_px img_h_px page_w_pt page_h_pt =
     (case rect_disp of (x0d, y0d, x1d, y1d) \<Rightarrow>
      case sorted2 x0d x1d of (x0d, x1d) \<Rightarrow>
      case sorted2 y0d y1d of (y0d, y1d) \<Rightarrow>
        if display_scale = 0 then Inl ZeroDivisionError
        else
          let x0 = f64 (x0d / display_scale);
              y0 = f64 (y0d / display_scale);
              x1 = f64 (x1d / display_scale);
              y1 = f64 (y1d / display_scale);
              x0 = max 0 (min (f64 (real_of_int img_w_px)) x0);
              x1 = max 0 (min (f64 (real_of_int img_w_px)) x1);
              y0 = max 0 (min (f64 (real_of_int img_h_px)) y0);
              y1 = max 0 (min (f64 (real_of_int img_h_px)) y1)
          in if img_w_px = 0 then Inl ZeroDivisionError
             else if img_h_px = 0 then Inl ZeroDivisionError
             else
               let sx = f64 (page_w_pt / f64 (real_of_int img_w_px));
                   sy = f64 (page_h_pt / f64 (real_of_int img_h_px))
               in Inr (f64 (x0 * sx), f64 (y0 * sy), f64 (x1 * sx), f64 (y1 * sy)))"

text \<open>Lines 65 to 69.\<close>

definition rect_pt_to_rect_px ::
  "RectPT \<Rightarrow> int \<Rightarrow> int \<Rightarrow> real \<Rightarrow> real \<Rightarrow> py_error + RectPT" where
  "rect_pt_to_rect_px rect_pt img_w_px img_h_px page_w_pt page_h_pt =
     (case rect_pt of (x0, y0, x1, y1) \<Rightarrow>
        if page_w_pt = 0 then Inl ZeroDivisionError
        else if page_h_pt = 0 then Inl ZeroDivisionError
        else
          let sx = real_of_int img_w_px / page_w_pt;
              sy = real_of_int img_h_px / page_h_pt
          in Inr (x0 * sx, y0 * sy, x1 * sx, y1 * sy))"

text \<open>Lines 65 to 69 in binary64 arithmetic.\<close>

definition rect_pt_to_rect_px_f64 ::
  "RectPT \<Rightarrow> int \<Rightarrow> int \<Rightarrow> real \<Rightarrow> real \<Rightarrow> py_error + RectPT" where
  "rect_pt_to_rect_px_f64 rect_pt img_w_px img_h_px page_w_pt page_h_pt =
     (case rect_pt of (x0, y0, x1, y1) \<Rightarrow>
        if page_w_pt = 0 then Inl ZeroDivisionError
        else if page_h_pt = 0 then Inl ZeroDivisionError
        else
          let sx = f64 (f64 (real_of_int img_w_px) / page_w_pt);
              sy = f64 (f64 (real_of_int img_h_px) / page_h_pt)
          in Inr (f64 (x0 * sx), f64 (y0 * sy), f64 (x1 * sx), f64 (y1 * sy)))"

text \<open>
  The composition of the round trip: a point rectangle to full-resolution pixels, every
  coordinate multiplied by the display scale (what the canvas shows), and back.
\<close>

definition scale_rect :: "real \<Rightarrow> RectPT \<Rightarrow> RectPT" where
  "scale_rect k r = (case r of (x0, y0, x1, y1) \<Rightarrow> (x0 * k, y0 * k, x1 * k, y1 * k))"

definition round_trip ::
  "RectPT \<Rightarrow> real \<Rightarrow> int \<Rightarrow> int \<Rightarrow> real \<Rightarrow> real \<Rightarrow> py_error + RectPT" where
  "round_trip r display_scale img_w_px img_h_px page_w_pt page_h_pt =
     (case rect_pt_to_rect_px r img_w_px img_h_px page_w_pt page_h_pt of
        Inl e \<Rightarrow> Inl e
      | Inr px \<Rightarrow>
          rect_disp_to_rect_pt (scale_rect display_scale px) display_scale
            img_w_px img_h_px page_w_pt page_h_pt)"

subsection \<open>Text layout\<close>

type_synonym pystr = "nat list"

text \<open>
  The code points that \<^verbatim>\<open>str.strip\<close> and \<^verbatim>\<open>str.rstrip\<close> remove: Python's Unicode
  whitespace (tab to carriage return, the separators U+001C to U+001F, space, U+0085,
  U+00A0, U+1680, U+2000 to U+200A, U+2028, U+2029, U+202F, U+205F, U+3000).
\<close>

definition isspace :: "nat \<Rightarrow> bool" where
  "isspace c \<longleftrightarrow>
     (9 \<le> c \<and> c \<le> 13) \<or> (28 \<le> c \<and> c \<le> 32) \<or> c = 133 \<or> c = 160 \<or> c = 5760
     \<or> (8192 \<le> c \<and> c \<le> 8202) \<or> c = 8232 \<or> c = 8233 \<or> c = 8239 \<or> c = 8287
     \<or> c = 12288"

definition rstrip :: "pystr \<Rightarrow> pystr" where
  "rstrip s = rev (dropWhile isspace (rev s))"

definition strip :: "pystr \<Rightarrow> pystr" where
  "strip s = rstrip (dropWhile isspace s)"

text \<open>\<^verbatim>\<open>s.replace("\r\n", "\n")\<close>: left to right, without overlap.\<close>

fun replace_crlf :: "pystr \<Rightarrow> pystr" where
  "replace_crlf (c # d # s) =
     (if c = 13 \<and> d = 10 then 10 # replace_crlf s else c # replace_crlf (d # s))"
| "replace_crlf s = s"

text \<open>
  \<^verbatim>\<open>s.split(sep)\<close> for a separator of one character: the pieces between the
  separators, empty pieces included, so that the empty string gives one empty piece.
\<close>

fun split_on :: "nat \<Rightarrow> pystr \<Rightarrow> pystr list" where
  "split_on sep [] = [[]]"
| "split_on sep (c # s) =
     (if c = sep then [] # split_on sep s
      else case split_on sep s of p # ps \<Rightarrow> (c # p) # ps | [] \<Rightarrow> [[c]])"

text \<open>
  Lines 89 to 108. The drawing context and the font only serve to measure a string, so
  they are one argument, the function \<open>textlength\<close>. The inner loop over the words of a
  paragraph threads \<open>cur\<close> and \<open>lines\<close>; the outer loop over the paragraphs threads
  \<open>lines\<close>.
\<close>

fun wrap_words ::
  "(pystr \<Rightarrow> real) \<Rightarrow> int \<Rightarrow> pystr list \<Rightarrow> pystr \<Rightarrow> pystr list \<Rightarrow> pystr \<times> pystr list" where
  "wrap_words textlength max_width lines cur [] = (cur, lines)"
| "wrap_words textlength max_width lines cur (w # ws) =
     (let trial = (if cur = [] then w else cur @ [32] @ w)
      in if textlength trial \<le> real_of_int max_width
         then wrap_words textlength max_width lines trial ws
         else wrap_words textlength max_width
                (if cur \<noteq> [] then lines @ [cur] else lines) w ws)"

fun wrap_paragraphs ::
  "(pystr \<Rightarrow> real) \<Rightarrow> int \<Rightarrow> pystr list \<Rightarrow> pystr list \<Rightarrow> pystr list" where
  "wrap_paragraphs textlength max_width lines [] = lines"
| "wrap_paragraphs textlength max_width lines (paragraph # ps) =
     (if strip paragraph = [] then wrap_paragraphs textlength max_width (lines @ [[]]) ps
      else
        case wrap_words textlength max_width lines [] (split_on 32 paragraph) of
          (cur, lines') \<Rightarrow>
            wrap_paragraphs textlength max_width
              (if cur \<noteq> [] then lines' @ [cur] else lines') ps)"

definition paragraphs :: "pystr option \<Rightarrow> pystr list" where
  "paragraphs text = split_on 10 (replace_crlf (case text of None \<Rightarrow> [] | Some t \<Rightarrow> t))"

definition wrap_text :: "(pystr \<Rightarrow> real) \<Rightarrow> pystr option \<Rightarrow> int \<Rightarrow> pystr list" where
  "wrap_text textlength text max_width =
     wrap_paragraphs textlength max_width [] (paragraphs text)"

text \<open>The lines that one paragraph adds to an empty list of lines.\<close>

definition wrap_paragraph :: "(pystr \<Rightarrow> real) \<Rightarrow> int \<Rightarrow> pystr \<Rightarrow> pystr list" where
  "wrap_paragraph textlength max_width paragraph =
     wrap_paragraphs textlength max_width [] [paragraph]"

subsection \<open>Preview: the lines of the text overlay and the box of the stamp\<close>

text \<open>\<^verbatim>\<open>int(x)\<close> on a float: truncation towards zero.\<close>

definition py_int :: "real \<Rightarrow> int" where
  "py_int x = (if 0 \<le> x then \<lfloor>x\<rfloor> else \<lceil>x\<rceil>)"

text \<open>Line 144: the height of a line, from the bounding box of \<^verbatim>\<open>"Ag"\<close>.\<close>

definition line_height :: "int \<times> int \<times> int \<times> int \<Rightarrow> int" where
  "line_height bbox = (case bbox of (b0, b1, b2, b3) \<Rightarrow> (b3 - b1) + 4)"

text \<open>
  Lines 137 and 140 to 148 of \<^verbatim>\<open>build_preview_image\<close>: the lines that the text overlay
  draws in the pixel rectangle \<open>(x0, y0, x1, y1)\<close>. The font enters through the function
  \<open>textlength\<close> and the bounding box \<open>bbox\<close> of \<^verbatim>\<open>"Ag"\<close>. The floor division by the line
  height raises on zero; the ellipsis marker is a space and U+2026.
\<close>

definition overlay_lines ::
  "(pystr \<Rightarrow> real) \<Rightarrow> int \<times> int \<times> int \<times> int \<Rightarrow> int \<times> int \<times> int \<times> int \<Rightarrow> pystr
     \<Rightarrow> py_error + pystr list" where
  "overlay_lines textlength bbox rect_px message =
     (case rect_px of (x0, y0, x1, y1) \<Rightarrow>
        let pad = 10;
            max_w = max 10 ((x1 - x0) - 2 * pad);
            lines = wrap_text textlength (Some message) max_w;
            line_h = line_height bbox
        in if line_h = 0 then Inl ZeroDivisionError
           else
             let max_lines = max 1 (((y1 - y0) - 2 * pad) div line_h)
             in if int (length lines) > max_lines
                then
                  let lines = take (nat max_lines) lines
                  in if lines = [] then Inl IndexError
                     else Inr (lines[length lines - 1 := rstrip (last lines) @ [32, 8230]])
                else Inr lines)"

text \<open>
  Lines 160, 161 and 166 to 174 of \<^verbatim>\<open>build_preview_image\<close>: the size \<open>(nw, nh)\<close> to which
  the stamp of size \<open>(sw, sh)\<close> is resized and the offset \<open>(px, py)\<close> at which it is
  composited, for the pixel rectangle \<open>(x0, y0, x1, y1)\<close>. The divisions by \<open>sw\<close> and
  \<open>sh\<close> raise on zero. The two quotients of integers and the two products of a side
  with the scale are binary64 operations.
\<close>

definition stamp_box ::
  "bool \<Rightarrow> int \<times> int \<times> int \<times> int \<Rightarrow> int \<times> int
     \<Rightarrow> py_error + ((int \<times> int) \<times> (int \<times> int))" where
  "stamp_box keep_ratio rect_px stamp_size =
     (case rect_px of (x0, y0, x1, y1) \<Rightarrow>
      case stamp_size of (sw, sh) \<Rightarrow>
        let target_w = max 1 (x1 - x0);
            target_h = max 1 (y1 - y0)
        in if keep_ratio
           then
             if sw = 0 then Inl ZeroDivisionError
             else if sh = 0 then Inl ZeroDivisionError
             else
               let scale = min (f64 (real_of_int target_w / real_of_int sw))
                               (f64 (real_of_int target_h / real_of_int sh));
                   nw = max 1 (py_int (f64 (f64 (real_of_int sw) * scale)));
                   nh = max 1 (py_int (f64 (f64 (real_of_int sh) * scale)));
                   px = x0 + (target_w - nw) div 2;
                   py = y0 + (target_h - nh) div 2
               in Inr ((nw, nh), (px, py))
           else Inr ((target_w, target_h), (x0, y0)))"

subsection \<open>Rectangle extractor\<close>

text \<open>
  The canvas data is parsed JSON: \<^verbatim>\<open>None\<close>, booleans, numbers, strings, lists and
  dictionaries (association lists, looked up with \<^const>\<open>map_of\<close>). A string literal of
  the source is written \<open>pys ''...''\<close>.
\<close>

datatype json =
  JNull | JBool bool | JNum real | JStr pystr | JArr "json list" | JObj "(pystr \<times> json) list"

definition pys :: "string \<Rightarrow> pystr" where
  "pys s = map of_char s"

text \<open>Truth value of a Python object, as \<^verbatim>\<open>not x\<close> tests it.\<close>

fun truthy :: "json \<Rightarrow> bool" where
  "truthy JNull = False"
| "truthy (JBool b) = b"
| "truthy (JNum r) = (r \<noteq> 0)"
| "truthy (JStr s) = (s \<noteq> [])"
| "truthy (JArr xs) = (xs \<noteq> [])"
| "truthy (JObj kvs) = (kvs \<noteq> [])"

text \<open>\<^verbatim>\<open>d.get(key, dflt)\<close>.\<close>

definition dict_get :: "(pystr \<times> json) list \<Rightarrow> pystr \<Rightarrow> json \<Rightarrow> json" where
  "dict_get d key dflt = (case map_of d key of None \<Rightarrow> dflt | Some v \<Rightarrow> v)"

text \<open>
  \<^verbatim>\<open>float(x)\<close>: a number is itself, a boolean is 1 or 0, a string is parsed (the parser
  of Python's built-in is the argument \<open>str_float\<close>, \<open>None\<close> where it raises), anything
  else is a type error.
\<close>

fun py_float :: "(pystr \<Rightarrow> real option) \<Rightarrow> json \<Rightarrow> py_error + real" where
  "py_float str_float (JNum r) = Inr r"
| "py_float str_float (JBool b) = Inr (if b then 1 else 0)"
| "py_float str_float (JStr s) =
     (case str_float s of None \<Rightarrow> Inl ValueError | Some r \<Rightarrow> Inr r)"
| "py_float str_float v = Inl TypeError"

definition bind_err :: "py_error + 'a \<Rightarrow> ('a \<Rightarrow> py_error + 'b) \<Rightarrow> py_error + 'b" where
  "bind_err m f = (case m of Inl e \<Rightarrow> Inl e | Inr v \<Rightarrow> f v)"

text \<open>
  Line 76, \<^verbatim>\<open>[o for o in objects if o.get("type") == "rect"]\<close>: an element that is not a
  dictionary has no \<^verbatim>\<open>get\<close>.
\<close>

fun rects_of :: "json list \<Rightarrow> py_error + (pystr \<times> json) list list" where
  "rects_of [] = Inr []"
| "rects_of (JObj d # os) =
     (if map_of d (pys ''type'') = Some (JStr (pys ''rect''))
      then bind_err (rects_of os) (\<lambda>rects. Inr (d # rects))
      else rects_of os)"
| "rects_of (v # os) = Inl AttributeError"

text \<open>
  Lines 72 to 86. The canvas data is \<^verbatim>\<open>None\<close> or a dictionary. Iterating over a
  non-empty dictionary or string yields strings, which have no \<^verbatim>\<open>get\<close>; a number or
  \<^verbatim>\<open>True\<close> cannot be iterated.
\<close>

definition get_last_rect_from_canvas ::
  "(pystr \<Rightarrow> real option) \<Rightarrow> (pystr \<times> json) list option \<Rightarrow> py_error + RectPT option" where
  "get_last_rect_from_canvas str_float canvas_json =
     (case canvas_json of
        None \<Rightarrow> Inr None
      | Some cj \<Rightarrow>
          if cj = [] then Inr None
          else case map_of cj (pys ''objects'') of
            None \<Rightarrow> Inr None
          | Some objects \<Rightarrow>
              if \<not> truthy objects then Inr None
              else case objects of
                JArr os \<Rightarrow>
                  bind_err (rects_of os) (\<lambda>rects.
                    if rects = [] then Inr None
                    else
                      let obj = last rects
                      in bind_err (py_float str_float (dict_get obj (pys ''left'') (JNum 0))) (\<lambda>left.
                         bind_err (py_float str_float (dict_get obj (pys ''top'') (JNum 0))) (\<lambda>top.
                         bind_err (py_float str_float (dict_get obj (pys ''width'') (JNum 0))) (\<lambda>width.
                         bind_err (py_float str_float (dict_get obj (pys ''scaleX'') (JNum 1))) (\<lambda>scaleX.
                         bind_err (py_float str_float (dict_get obj (pys ''height'') (JNum 0))) (\<lambda>height.
                         bind_err (py_float str_float (dict_get obj (pys ''scaleY'') (JNum 1))) (\<lambda>scaleY.
                           let w = width * scaleX;
                               h = height * scaleY
                           in Inr (Some (left, top, left + w, top + h)))))))))
              | JObj kvs \<Rightarrow> Inl AttributeError
              | JStr s \<Rightarrow> Inl AttributeError
              | _ \<Rightarrow> Inl TypeError)"

subsection \<open>Document mutator\<close>

type_synonym pybytes = "nat list"

text \<open>
  What \<^verbatim>\<open>apply_edits_to_pdf\<close> uses of PyMuPDF: opening a document (a list of pages),
  inserting a text box or an image into a page (either may raise), and serialising.
\<close>

record 'page fitz =
  fitz_open :: "pybytes \<Rightarrow> py_error + 'page list"
  insert_textbox :: "RectPT \<Rightarrow> pystr \<Rightarrow> int \<Rightarrow> 'page \<Rightarrow> py_error + 'page"
  insert_image :: "RectPT \<Rightarrow> pybytes \<Rightarrow> bool \<Rightarrow> 'page \<Rightarrow> py_error + 'page"
  tobytes :: "'page list \<Rightarrow> pybytes"

text \<open>
  Lines 191 to 214, the loop over \<^verbatim>\<open>rects_by_page.items()\<close>, in the order of the
  dictionary. A page dictionary maps \<^verbatim>\<open>"texto"\<close> and \<^verbatim>\<open>"stamp"\<close> to rectangles.
\<close>

fun apply_pages ::
  "'page fitz \<Rightarrow> pystr \<Rightarrow> int \<Rightarrow> pybytes option \<Rightarrow> bool \<Rightarrow> 'page list
     \<Rightarrow> (int \<times> (pystr \<rightharpoonup> RectPT)) list \<Rightarrow> py_error + 'page list" where
  "apply_pages fz message font_pt stamp_png_bytes keep_ratio doc [] = Inr doc"
| "apply_pages fz message font_pt stamp_png_bytes keep_ratio doc ((pno, d) # items) =
     (if pno < 0 \<or> pno \<ge> int (length doc)
      then apply_pages fz message font_pt stamp_png_bytes keep_ratio doc items
      else
        let page = doc ! nat pno
        in bind_err
             (case d (pys ''texto'') of
                None \<Rightarrow> Inr page
              | Some r \<Rightarrow>
                  if strip message \<noteq> [] then insert_textbox fz r message font_pt page
                  else Inr page)
             (\<lambda>page.
                bind_err
                  (case d (pys ''stamp'') of
                     None \<Rightarrow> Inr page
                   | Some r \<Rightarrow>
                       (case stamp_png_bytes of
                          None \<Rightarrow> Inr page
                        | Some b \<Rightarrow>
                            if b \<noteq> [] then insert_image fz r b keep_ratio page
                            else Inr page))
                  (\<lambda>page.
                     apply_pages fz message font_pt stamp_png_bytes keep_ratio
                       (doc[nat pno := page]) items)))"

text \<open>Lines 181 to 218.\<close>

definition apply_edits_to_pdf ::
  "'page fitz \<Rightarrow> pybytes \<Rightarrow> (int \<times> (pystr \<rightharpoonup> RectPT)) list \<Rightarrow> pystr \<Rightarrow> int
     \<Rightarrow> pybytes option \<Rightarrow> bool \<Rightarrow> py_error + pybytes" where
  "apply_edits_to_pdf fz pdf_bytes rects_by_page message font_pt stamp_png_bytes keep_ratio =
     bind_err (fitz_open fz pdf_bytes) (\<lambda>doc.
       bind_err (apply_pages fz message font_pt stamp_png_bytes keep_ratio doc rects_by_page)
         (\<lambda>doc. Inr (tobytes fz doc)))"

subsection \<open>Overlay compositor\<close>

type_synonym rgba = "int \<times> int \<times> int \<times> int"

text \<open>
  What \<^verbatim>\<open>build_preview_image\<close> uses of Pillow, on the pixel contents \<open>'img\<close> of an
  image: its size, a mode conversion, the fonts and their metrics, and the drawing
  primitives (rectangle with fill, outline and width; text; resize; alpha compositing of
  a source onto a destination at an offset), each of which may raise.
\<close>

record ('img, 'font) pil =
  pil_size :: "'img \<Rightarrow> int \<times> int"
  pil_convert :: "string \<Rightarrow> 'img \<Rightarrow> 'img"
  pil_truetype :: "string \<Rightarrow> int \<Rightarrow> 'font option"
  pil_load_default :: "'font"
  pil_textlength :: "'font \<Rightarrow> pystr \<Rightarrow> real"
  pil_getbbox :: "'font \<Rightarrow> pystr \<Rightarrow> int \<times> int \<times> int \<times> int"
  pil_rectangle ::
    "int \<times> int \<times> int \<times> int \<Rightarrow> rgba option \<Rightarrow> rgba \<Rightarrow> int \<Rightarrow> 'img \<Rightarrow> py_error + 'img"
  pil_text :: "int \<times> int \<Rightarrow> pystr \<Rightarrow> 'font \<Rightarrow> rgba \<Rightarrow> 'img \<Rightarrow> py_error + 'img"
  pil_resize :: "int \<times> int \<Rightarrow> 'img \<Rightarrow> py_error + 'img"
  pil_alpha_composite :: "'img \<Rightarrow> 'img \<Rightarrow> int \<times> int \<Rightarrow> py_error + 'img"

text \<open>
  Image objects live in a store, a list of pixel contents; a reference to an image is its
  index. \<^verbatim>\<open>copy\<close>, \<^verbatim>\<open>convert\<close> and \<^verbatim>\<open>resize\<close> return a new object;
  \<^verbatim>\<open>ImageDraw\<close> and \<^verbatim>\<open>alpha_composite\<close> change the object they are called on.
  A function on the store returns its value or exception together with the new store.
\<close>

definition new_image :: "'img \<Rightarrow> 'img list \<Rightarrow> nat \<times> 'img list" where
  "new_image v heap = (length heap, heap @ [v])"

definition draw_on ::
  "nat \<Rightarrow> ('img \<Rightarrow> py_error + 'img) \<Rightarrow> 'img list \<Rightarrow> (py_error + unit) \<times> 'img list" where
  "draw_on a f heap =
     (case f (heap ! a) of Inl e \<Rightarrow> (Inl e, heap) | Inr v \<Rightarrow> (Inr (), heap[a := v]))"

text \<open>Lines 150 to 153: the loop that draws the lines, one line height apart.\<close>

fun draw_lines ::
  "('img, 'font) pil \<Rightarrow> 'font \<Rightarrow> nat \<Rightarrow> int \<Rightarrow> int \<Rightarrow> int \<Rightarrow> pystr list \<Rightarrow> 'img list
     \<Rightarrow> (py_error + unit) \<times> 'img list" where
  "draw_lines P font img x yy line_h [] heap = (Inr (), heap)"
| "draw_lines P font img x yy line_h (line # lns) heap =
     (case draw_on img (pil_text P (x, yy) line font (0, 0, 0, 255)) heap of
        (Inl e, heap) \<Rightarrow> (Inl e, heap)
      | (Inr u, heap) \<Rightarrow> draw_lines P font img x (yy + line_h) line_h lns heap)"

text \<open>Lines 134 to 153: the text overlay, drawn on the image \<open>img\<close>.\<close>

definition text_overlay ::
  "('img, 'font) pil \<Rightarrow> 'font \<Rightarrow> nat \<Rightarrow> int \<Rightarrow> int \<Rightarrow> real \<Rightarrow> real \<Rightarrow> RectPT option \<Rightarrow> pystr
     \<Rightarrow> 'img list \<Rightarrow> (py_error + unit) \<times> 'img list" where
  "text_overlay P font img img_w img_h page_w_pt page_h_pt rect_text_pt message heap =
     (case rect_text_pt of
        None \<Rightarrow> (Inr (), heap)
      | Some r \<Rightarrow>
          if strip message = [] then (Inr (), heap)
          else case rect_pt_to_rect_px_f64 r img_w img_h page_w_pt page_h_pt of
            Inl e \<Rightarrow> (Inl e, heap)
          | Inr (x0, y0, x1, y1) \<Rightarrow>
              let x0 = py_int x0; y0 = py_int y0; x1 = py_int x1; y1 = py_int y1;
                  pad = 10
              in case draw_on img
                        (pil_rectangle P (x0, y0, x1, y1) (Some (255, 255, 255, 160))
                           (65, 105, 225, 255) 3) heap of
                   (Inl e, heap) \<Rightarrow> (Inl e, heap)
                 | (Inr u, heap) \<Rightarrow>
                     (case overlay_lines (pil_textlength P font)
                             (pil_getbbox P font (pys ''Ag'')) (x0, y0, x1, y1) message of
                        Inl e \<Rightarrow> (Inl e, heap)
                      | Inr lines \<Rightarrow>
                          draw_lines P font img (x0 + pad) (y0 + pad)
                            (line_height (pil_getbbox P font (pys ''Ag''))) lines heap))"

text \<open>Lines 155 to 176: the stamp overlay, composited onto the image \<open>img\<close>.\<close>

definition stamp_overlay ::
  "('img, 'font) pil \<Rightarrow> nat \<Rightarrow> int \<Rightarrow> int \<Rightarrow> real \<Rightarrow> real \<Rightarrow> RectPT option \<Rightarrow> nat option \<Rightarrow> bool
     \<Rightarrow> 'img list \<Rightarrow> (py_error + unit) \<times> 'img list" where
  "stamp_overlay P img img_w img_h page_w_pt page_h_pt rect_stamp_pt stamp_pil keep_ratio heap =
     (case rect_stamp_pt of
        None \<Rightarrow> (Inr (), heap)
      | Some r \<Rightarrow>
          (case stamp_pil of
             None \<Rightarrow> (Inr (), heap)
           | Some stamp_pil \<Rightarrow>
               (case rect_pt_to_rect_px_f64 r img_w img_h page_w_pt page_h_pt of
                  Inl e \<Rightarrow> (Inl e, heap)
                | Inr (x0, y0, x1, y1) \<Rightarrow>
                    let x0 = py_int x0; y0 = py_int y0; x1 = py_int x1; y1 = py_int y1
                    in case draw_on img
                              (pil_rectangle P (x0, y0, x1, y1) None (46, 139, 87, 255) 3)
                              heap of
                         (Inl e, heap) \<Rightarrow> (Inl e, heap)
                       | (Inr u, heap) \<Rightarrow>
                           (case new_image (heap ! stamp_pil) heap of (c, heap) \<Rightarrow>
                            case new_image (pil_convert P ''RGBA'' (heap ! c)) heap of
                              (stamp, heap) \<Rightarrow>
                            case stamp_box keep_ratio (x0, y0, x1, y1)
                                   (pil_size P (heap ! stamp)) of
                              Inl e \<Rightarrow> (Inl e, heap)
                            | Inr (new_size, dest) \<Rightarrow>
                                (case pil_resize P new_size (heap ! stamp) of
                                   Inl e \<Rightarrow> (Inl e, heap)
                                 | Inr resized \<Rightarrow>
                                     (case new_image resized heap of (stamp, heap) \<Rightarrow>
                                        draw_on img
                                          (\<lambda>im. pil_alpha_composite P im (heap ! stamp) dest)
                                          heap))))))"

text \<open>
  Lines 111 to 178. \<open>base_img\<close> and \<open>stamp_pil\<close> are references into the store; the
  result is the reference of the preview image, and the new store.
\<close>

definition build_preview_image ::
  "('img, 'font) pil \<Rightarrow> 'img list \<Rightarrow> nat \<Rightarrow> real \<Rightarrow> real \<Rightarrow> RectPT option \<Rightarrow> RectPT option
     \<Rightarrow> pystr \<Rightarrow> int \<Rightarrow> nat option \<Rightarrow> bool \<Rightarrow> (py_error + nat) \<times> 'img list" where
  "build_preview_image P heap base_img page_w_pt page_h_pt rect_text_pt rect_stamp_pt message
       font_pt stamp_pil keep_ratio =
     (case new_image (heap ! base_img) heap of (c, heap) \<Rightarrow>
      case new_image (pil_convert P ''RGBA'' (heap ! c)) heap of (img, heap) \<Rightarrow>
      case pil_size P (heap ! img) of (img_w, img_h) \<Rightarrow>
        if page_w_pt = 0 then (Inl ZeroDivisionError, heap)
        else
          let px_per_pt = f64 (f64 (real_of_int img_w) / page_w_pt);
              font_px = max 10 (py_int (f64 (f64 (real_of_int font_pt) * px_per_pt)));
              font = (case pil_truetype P ''DejaVuSans.ttf'' font_px of
                        Some f \<Rightarrow> f
                      | None \<Rightarrow> pil_load_default P)
          in case text_overlay P font img img_w img_h page_w_pt page_h_pt rect_text_pt
                    message heap of
               (Inl e, heap) \<Rightarrow> (Inl e, heap)
             | (Inr u, heap) \<Rightarrow>
                 (case stamp_overlay P img img_w img_h page_w_pt page_h_pt rect_stamp_pt
                         stamp_pil keep_ratio heap of
                    (Inl e, heap) \<Rightarrow> (Inl e, heap)
                  | (Inr u, heap) \<Rightarrow>
                      (case new_image (pil_convert P ''RGB'' (heap ! img)) heap of
                         (out, heap) \<Rightarrow> (Inr out, heap))))"

text \<open>
  A run from the store \<open>heap\<close> leaves the first \<open>n\<close> objects as they were, and deletes
  nothing.
\<close>

definition keeps :: "nat \<Rightarrow> 'img list \<Rightarrow> 'a \<times> 'img list \<Rightarrow> bool" where
  "keeps n heap r \<longleftrightarrow> take n (snd r) = take n heap \<and> length heap \<le> length (snd r)"

text \<open>
  An instance of the primitives, for an example: an image is the list of the operations
  applied to it, the most recent first (1 for a rectangle, 2 for a line of text, 3 for a
  composited stamp), every image has 200 by 200 pixels, and there is no TrueType font.
\<close>

definition pil_log :: "(nat list, unit) pil" where
  "pil_log =
     \<lparr>pil_size = (\<lambda>im. (200, 200)),
      pil_convert = (\<lambda>mode im. im),
      pil_truetype = (\<lambda>name size. None),
      pil_load_default = (),
      pil_textlength = (\<lambda>font s. 6 * real (length s)),
      pil_getbbox = (\<lambda>font s. (0, 2, 12, 12)),
      pil_rectangle = (\<lambda>box fill outline width im. Inr (1 # im)),
      pil_text = (\<lambda>xy s font fill im. Inr (2 # im)),
      pil_resize = (\<lambda>size im. Inr im),
      pil_alpha_composite = (\<lambda>im source dest. Inr (3 # im))\<rparr>"

section \<open>Properties of the binary64 rounding\<close>

text \<open>
  The rounding is the identity on the numbers with a significand of 53 bits, it is
  monotone, and within the normal range its relative error is at most \<open>2 ^ -53\<close>.
  \<open>f64_binade\<close> evaluates it on a number whose binary exponent is known.
\<close>

lemma rne_of_int: "rne (of_int n) = n"
  by (simp add: rne_def)

lemma rne_bounds: "\<lfloor>y\<rfloor> \<le> rne y" "rne y \<le> \<lfloor>y\<rfloor> + 1"
  by (simp_all add: rne_def Let_def)

lemma rne_mono:
  assumes "a \<le> b"
  shows "rne a \<le> rne b"
proof (cases "\<lfloor>a\<rfloor> = \<lfloor>b\<rfloor>")
  case True
  have "a - of_int \<lfloor>a\<rfloor> \<le> b - of_int \<lfloor>a\<rfloor>" using assms by simp
  then show ?thesis using True by (simp add: rne_def Let_def)
next
  case False
  have "\<lfloor>a\<rfloor> \<le> \<lfloor>b\<rfloor>" using assms by (rule floor_mono)
  then have "\<lfloor>a\<rfloor> + 1 \<le> \<lfloor>b\<rfloor>" using False by simp
  then show ?thesis using rne_bounds(2) [of a] rne_bounds(1) [of b] by linarith
qed

lemma rne_err: "\<bar>real_of_int (rne y) - y\<bar> \<le> 1/2"
proof -
  have "real_of_int \<lfloor>y\<rfloor> \<le> y" "y < real_of_int \<lfloor>y\<rfloor> + 1" by linarith+
  then show ?thesis by (simp add: rne_def Let_def)
qed

lemma pow2_powr: "(2::real) powr real_of_int k = 2 powi k"
  by (rule powr_real_of_int') simp_all

lemma f64_exp_binade:
  assumes "2 powi k \<le> \<bar>x\<bar>" "\<bar>x\<bar> < 2 powi (k + 1)"
  shows "f64_exp x = max (k - 52) (- 1074)"
proof -
  have pos: "0 < \<bar>x\<bar>" using assms(1) zero_less_power_int [of "2::real" k] by linarith
  have "2 powr real_of_int k \<le> \<bar>x\<bar> \<and> \<bar>x\<bar> < 2 powr (real_of_int k + 1)"
    using assms pow2_powr [of k] pow2_powr [of "k + 1"] by simp
  then have "\<lfloor>log 2 \<bar>x\<bar>\<rfloor> = k"
    using floor_log_eq_powr_iff [of "\<bar>x\<bar>" 2 k] pos by simp
  then show ?thesis by (simp add: f64_exp_def)
qed

lemma binade_exists:
  assumes "x \<noteq> 0"
  shows "2 powi \<lfloor>log 2 \<bar>x\<bar>\<rfloor> \<le> \<bar>x\<bar>" "\<bar>x\<bar> < 2 powi (\<lfloor>log 2 \<bar>x\<bar>\<rfloor> + 1)"
proof -
  have pos: "0 < \<bar>x\<bar>" using assms by simp
  have "2 powr real_of_int \<lfloor>log 2 \<bar>x\<bar>\<rfloor> \<le> \<bar>x\<bar>
      \<and> \<bar>x\<bar> < 2 powr (real_of_int \<lfloor>log 2 \<bar>x\<bar>\<rfloor> + 1)"
    using floor_log_eq_powr_iff [of "\<bar>x\<bar>" 2 "\<lfloor>log 2 \<bar>x\<bar>\<rfloor>"] pos by simp
  then show "2 powi \<lfloor>log 2 \<bar>x\<bar>\<rfloor> \<le> \<bar>x\<bar>" "\<bar>x\<bar> < 2 powi (\<lfloor>log 2 \<bar>x\<bar>\<rfloor> + 1)"
    using pow2_powr [of "\<lfloor>log 2 \<bar>x\<bar>\<rfloor>"] pow2_powr [of "\<lfloor>log 2 \<bar>x\<bar>\<rfloor> + 1"] by simp_all
qed

lemma f64_binade:
  assumes "2 powi k \<le> \<bar>x\<bar>" "\<bar>x\<bar> < 2 powi (k + 1)" "e = max (k - 52) (- 1074)"
  shows "f64 x = sgn x * (of_int (rne (\<bar>x\<bar> / 2 powi e)) * 2 powi e)"
proof -
  have "0 < \<bar>x\<bar>" using assms(1) zero_less_power_int [of "2::real" k] by linarith
  then have "x \<noteq> 0" by simp
  then show ?thesis using f64_exp_binade [OF assms(1,2)] assms(3) by (simp add: f64_def)
qed

lemma f64_0: "f64 0 = 0"
  by (simp add: f64_def)

lemma f64_minus: "f64 (- x) = - f64 x"
  by (simp add: f64_def f64_exp_def sgn_minus)

lemma pow2_less_cancel:
  assumes "(2::real) powi a < 2 powi b"
  shows "a < b"
proof (rule ccontr)
  assume "\<not> a < b"
  then have "b \<le> a" by simp
  then have "(2::real) powi b \<le> 2 powi a" by (intro power_int_increasing) simp_all
  then show False using assms by simp
qed

lemma pow2_split: "(2::real) powi (a + b) = 2 powi a * 2 powi b"
  by (rule power_int_add) simp

lemma f64_pos:
  assumes "0 < x"
  shows "f64 x = of_int (rne (x / 2 powi f64_exp x)) * 2 powi f64_exp x"
  using assms by (simp add: f64_def)

lemma f64_exp_ge: "- 1074 \<le> f64_exp x" "\<lfloor>log 2 \<bar>x\<bar>\<rfloor> - 52 \<le> f64_exp x"
  by (simp_all add: f64_exp_def)

lemma f64_exp_mono:
  assumes "0 < x" "x \<le> y"
  shows "f64_exp x \<le> f64_exp y"
proof -
  have "log 2 x \<le> log 2 y" using assms by simp
  then have "\<lfloor>log 2 x\<rfloor> \<le> \<lfloor>log 2 y\<rfloor>" by (rule floor_mono)
  then show ?thesis using assms by (simp add: f64_exp_def)
qed

lemma mantissa_less:
  assumes "0 < x"
  shows "x / 2 powi f64_exp x < 2 ^ 53"
proof -
  let ?k = "\<lfloor>log 2 \<bar>x\<bar>\<rfloor>" and ?e = "f64_exp x"
  have "x < 2 powi (?k + 1)" using binade_exists(2) [of x] assms by simp
  also have "(2::real) powi (?k + 1) \<le> 2 powi (53 + ?e)"
    using f64_exp_ge(2) [of x] by (intro power_int_increasing) simp_all
  also have "\<dots> = 2 ^ 53 * 2 powi ?e" by (simp add: pow2_split)
  finally show ?thesis by (simp add: pos_divide_less_eq)
qed

lemma mantissa_ge:
  assumes "0 < x" "- 1074 < f64_exp x"
  shows "2 ^ 52 \<le> x / 2 powi f64_exp x"
proof -
  let ?k = "\<lfloor>log 2 \<bar>x\<bar>\<rfloor>" and ?e = "f64_exp x"
  have e: "?e = ?k - 52" using assms(2) by (simp add: f64_exp_def max_def split: if_splits)
  have "(2::real) ^ 52 * 2 powi ?e = 2 powi (52 + ?e)" by (simp add: pow2_split)
  also have "\<dots> = 2 powi ?k" using e by simp
  also have "\<dots> \<le> x" using binade_exists(1) [of x] assms(1) by simp
  finally show ?thesis by (simp add: pos_le_divide_eq)
qed

lemma f64_mono_pos:
  assumes "0 < x" "x \<le> y"
  shows "f64 x \<le> f64 y"
proof -
  have y: "0 < y" using assms by simp
  let ?ex = "f64_exp x" and ?ey = "f64_exp y"
  have le: "?ex \<le> ?ey" by (rule f64_exp_mono [OF assms])
  show ?thesis
  proof (cases "?ex = ?ey")
    case True
    have "x / 2 powi ?ey \<le> y / 2 powi ?ey"
      using assms(2) by (intro divide_right_mono) simp_all
    then have "rne (x / 2 powi ?ey) \<le> rne (y / 2 powi ?ey)" by (rule rne_mono)
    then have "real_of_int (rne (x / 2 powi ?ey)) * 2 powi ?ey
                 \<le> real_of_int (rne (y / 2 powi ?ey)) * 2 powi ?ey"
      by (intro mult_right_mono) simp_all
    then show ?thesis using True by (simp add: f64_pos [OF assms(1)] f64_pos [OF y])
  next
    case False
    then have lt: "?ex + 1 \<le> ?ey" using le by simp
    then have big: "- 1074 < ?ey" using f64_exp_ge(1) [of x] by simp
    have "rne (x / 2 powi ?ex) \<le> rne (real_of_int (2 ^ 53))"
      using mantissa_less [OF assms(1)] by (intro rne_mono) simp
    then have "rne (x / 2 powi ?ex) \<le> 2 ^ 53" by (simp only: rne_of_int)
    then have "real_of_int (rne (x / 2 powi ?ex)) \<le> 2 ^ 53"
      by (metis of_int_le_iff of_int_numeral of_int_power)
    then have "real_of_int (rne (x / 2 powi ?ex)) * 2 powi ?ex \<le> 2 ^ 53 * 2 powi ?ex"
      by (intro mult_right_mono) simp_all
    also have "\<dots> = 2 ^ 52 * 2 powi (?ex + 1)" by (simp add: pow2_split)
    also have "\<dots> \<le> 2 ^ 52 * 2 powi ?ey"
      using lt by (intro mult_left_mono power_int_increasing) simp_all
    also have "\<dots> \<le> real_of_int (rne (y / 2 powi ?ey)) * 2 powi ?ey"
    proof -
      have "rne (real_of_int (2 ^ 52)) \<le> rne (y / 2 powi ?ey)"
        using mantissa_ge [OF y big] by (intro rne_mono) simp
      then have "2 ^ 52 \<le> rne (y / 2 powi ?ey)" by (simp only: rne_of_int)
      then have "2 ^ 52 \<le> real_of_int (rne (y / 2 powi ?ey))"
        by (metis of_int_le_iff of_int_numeral of_int_power)
      then show ?thesis by (intro mult_right_mono) simp_all
    qed
    finally show ?thesis by (simp add: f64_pos [OF assms(1)] f64_pos [OF y])
  qed
qed

lemma f64_nonneg:
  assumes "0 \<le> x"
  shows "0 \<le> f64 x"
proof (cases "x = 0")
  case True
  then show ?thesis by (simp add: f64_0)
next
  case False
  then have x: "0 < x" using assms by simp
  have "rne 0 \<le> rne (x / 2 powi f64_exp x)" using x by (intro rne_mono) simp
  then have "0 \<le> rne (x / 2 powi f64_exp x)" by (simp add: rne_def)
  then show ?thesis by (simp add: f64_pos [OF x])
qed

lemma f64_mono:
  assumes "x \<le> y"
  shows "f64 x \<le> f64 y"
proof -
  consider "0 < x" | "x \<le> 0" "0 \<le> y" | "y < 0" by linarith
  then show ?thesis
  proof cases
    case 1
    then show ?thesis using assms by (rule f64_mono_pos)
  next
    case 2
    have "0 \<le> f64 (- x)" using 2(1) by (intro f64_nonneg) simp
    then have "f64 x \<le> 0" by (simp add: f64_minus)
    also have "0 \<le> f64 y" using 2(2) by (rule f64_nonneg)
    finally show ?thesis .
  next
    case 3
    have "f64 (- y) \<le> f64 (- x)" using 3 assms by (intro f64_mono_pos) simp_all
    then show ?thesis by (simp add: f64_minus)
  qed
qed

lemma f64_abs_form:
  assumes "x \<noteq> 0"
  shows "f64 x - x = sgn x * ((of_int (rne (\<bar>x\<bar> / 2 powi f64_exp x)) - \<bar>x\<bar> / 2 powi f64_exp x)
                               * 2 powi f64_exp x)"
proof -
  have "sgn x * (\<bar>x\<bar> / 2 powi f64_exp x * 2 powi f64_exp x) = x"
    by (simp add: sgn_real_def)
  then show ?thesis using assms by (simp add: f64_def algebra_simps)
qed

lemma f64_err:
  "\<bar>f64 x - x\<bar> \<le> 2 powi f64_exp x / 2"
proof (cases "x = 0")
  case True
  then show ?thesis by (simp add: f64_0)
next
  case False
  let ?e = "f64_exp x"
  let ?m = "\<bar>x\<bar> / 2 powi ?e"
  have "\<bar>f64 x - x\<bar> = \<bar>of_int (rne ?m) - ?m\<bar> * 2 powi ?e"
    using False by (simp add: f64_abs_form [OF False] abs_mult sgn_real_def)
  also have "\<dots> \<le> 1/2 * 2 powi ?e"
    using rne_err [of ?m] by (intro mult_right_mono) simp_all
  finally show ?thesis by simp
qed

lemma f64_rel_error:
  assumes "2 powi (- 1022) \<le> \<bar>x\<bar>"
  shows "\<bar>f64 x - x\<bar> \<le> \<bar>x\<bar> / 2 ^ 53"
proof -
  have x: "x \<noteq> 0" using assms zero_less_power_int [of "2::real" "- 1022"] by auto
  let ?k = "\<lfloor>log 2 \<bar>x\<bar>\<rfloor>"
  have "(2::real) powi (- 1022) < 2 powi (?k + 1)"
    using assms binade_exists(2) [OF x] by linarith
  then have "- 1022 < ?k + 1" by (rule pow2_less_cancel)
  then have "- 1074 \<le> ?k - 52" by linarith
  then have e: "f64_exp x = ?k - 52" unfolding f64_exp_def by (rule max_absorb1)
  have "(2::real) powi f64_exp x / 2 = 2 powi (?k + (- 53))"
    unfolding pow2_split e by (simp add: power_int_diff)
  also have "\<dots> = 2 powi ?k / 2 ^ 53"
    unfolding pow2_split by (simp add: power_int_minus_divide)
  also have "\<dots> \<le> \<bar>x\<bar> / 2 ^ 53"
    using binade_exists(1) [OF x] by (intro divide_right_mono) simp_all
  finally show ?thesis using f64_err [of x] by linarith
qed

lemma f64_exact:
  assumes "\<bar>m\<bar> < 2 ^ 53" "- 1074 \<le> k"
  shows "f64 (of_int m * 2 powi k) = of_int m * 2 powi k"
proof (cases "m = 0")
  case True
  then show ?thesis by (simp add: f64_0)
next
  case False
  define x where "x = real_of_int m * 2 powi k"
  define e where "e = f64_exp x"
  have x: "x \<noteq> 0" using False by (simp add: x_def)
  have ax: "\<bar>x\<bar> = real_of_int \<bar>m\<bar> * 2 powi k" by (simp add: x_def abs_mult)
  have "real_of_int \<bar>m\<bar> < 2 ^ 53"
    using assms(1) by (metis of_int_less_iff of_int_numeral of_int_power)
  then have "\<bar>x\<bar> < 2 ^ 53 * 2 powi k"
    unfolding ax by (intro mult_strict_right_mono) simp_all
  also have "\<dots> = 2 powi (53 + k)" by (simp add: pow2_split)
  finally have "(2::real) powi \<lfloor>log 2 \<bar>x\<bar>\<rfloor> < 2 powi (53 + k)"
    using binade_exists(1) [OF x] by linarith
  then have "\<lfloor>log 2 \<bar>x\<bar>\<rfloor> < 53 + k" by (rule pow2_less_cancel)
  then have ek: "e \<le> k" using assms(2) by (simp add: e_def f64_exp_def)
  define d where "d = nat (k - e)"
  have k: "k = e + int d" using ek by (simp add: d_def)
  have pk: "(2::real) powi k = 2 powi e * 2 ^ d"
    by (subst k) (simp add: pow2_split)
  have "\<bar>x\<bar> / 2 powi e = real_of_int \<bar>m\<bar> * (2 powi e * 2 ^ d) / 2 powi e"
    unfolding ax pk ..
  also have "\<dots> = real_of_int (\<bar>m\<bar> * 2 ^ d)" by simp
  finally have "rne (\<bar>x\<bar> / 2 powi e) = \<bar>m\<bar> * 2 ^ d" by (simp only: rne_of_int)
  then have "f64 x = sgn x * (real_of_int (\<bar>m\<bar> * 2 ^ d) * 2 powi e)"
    using x by (simp add: f64_def e_def)
  also have "\<dots> = sgn x * (real_of_int \<bar>m\<bar> * (2 powi e * 2 ^ d))" by simp
  also have "\<dots> = sgn x * \<bar>x\<bar>" unfolding ax pk ..
  also have "\<dots> = x" by (simp add: sgn_real_def)
  finally show ?thesis unfolding x_def .
qed

lemma f64_of_int:
  assumes "\<bar>n\<bar> < 2 ^ 53"
  shows "f64 (of_int n) = of_int n"
  using f64_exact [OF assms, of 0] by simp

lemma f64_half_int:
  assumes "\<bar>n\<bar> < 2 ^ 53"
  shows "f64 (of_int n / 2) = of_int n / 2"
  using f64_exact [OF assms, of "- 1"] by (simp add: power_int_minus_divide)

lemma f64_one: "f64 1 = 1"
  using f64_of_int [of 1] by simp

section \<open>Properties of the geometry transform\<close>

lemma clamp_scale_mono:
  fixes w :: real
  assumes "0 < w" "0 \<le> p" "0 < d" "a \<le> b"
  shows "max 0 (min w (a / d)) * (p / w) \<le> max 0 (min w (b / d)) * (p / w)"
proof -
  have "a / d \<le> b / d" using assms by (simp add: divide_right_mono)
  then have "max 0 (min w (a / d)) \<le> max 0 (min w (b / d))" by auto
  then show ?thesis using assms by (intro mult_right_mono) simp_all
qed

lemma sorted2_min_max: "sorted2 a b = (min a b, max a b)"
  by (simp add: sorted2_def min_def max_def)

lemma rect_disp_to_rect_pt_value:
  assumes "display_scale \<noteq> 0" "img_w_px \<noteq> 0" "img_h_px \<noteq> 0"
  shows "rect_disp_to_rect_pt (x0d, y0d, x1d, y1d) display_scale img_w_px img_h_px
           page_w_pt page_h_pt =
         Inr (max 0 (min (real_of_int img_w_px) (min x0d x1d / display_scale))
                * (page_w_pt / real_of_int img_w_px),
              max 0 (min (real_of_int img_h_px) (min y0d y1d / display_scale))
                * (page_h_pt / real_of_int img_h_px),
              max 0 (min (real_of_int img_w_px) (max x0d x1d / display_scale))
                * (page_w_pt / real_of_int img_w_px),
              max 0 (min (real_of_int img_h_px) (max y0d y1d / display_scale))
                * (page_h_pt / real_of_int img_h_px))"
  using assms by (simp add: rect_disp_to_rect_pt_def sorted2_min_max Let_def)

lemma rect_disp_to_rect_pt_swap_x:
  "rect_disp_to_rect_pt (x1d, y0d, x0d, y1d) ds iw ih pw ph
     = rect_disp_to_rect_pt (x0d, y0d, x1d, y1d) ds iw ih pw ph"
  by (simp add: rect_disp_to_rect_pt_def sorted2_min_max min.commute max.commute)

lemma rect_disp_to_rect_pt_swap_y:
  "rect_disp_to_rect_pt (x0d, y1d, x1d, y0d) ds iw ih pw ph
     = rect_disp_to_rect_pt (x0d, y0d, x1d, y1d) ds iw ih pw ph"
  by (simp add: rect_disp_to_rect_pt_def sorted2_min_max min.commute max.commute)

lemma clamp_scale_back:
  fixes W P d a :: real
  assumes "0 < W" "0 < P" "0 < d" "0 \<le> a" "a \<le> P"
  shows "max 0 (min W (a * (W / P) * d / d)) * (P / W) = a"
proof -
  have "a * (W / P) \<le> P * (W / P)"
    using assms by (intro mult_right_mono) simp_all
  then have "a * (W / P) \<le> W" using assms by simp
  moreover have "0 \<le> a * (W / P)" using assms by simp
  ultimately have "max 0 (min W (a * (W / P))) = a * (W / P)" by simp
  then show ?thesis using assms by simp
qed

lemma scale_scale_mono:
  fixes W P d a b :: real
  assumes "0 < W" "0 < P" "0 < d" "a \<le> b"
  shows "a * (W / P) * d \<le> b * (W / P) * d"
  using assms by (intro mult_right_mono) simp_all

lemma rect_disp_to_rect_pt_f64_value:
  assumes "display_scale \<noteq> 0" "img_w_px \<noteq> 0" "img_h_px \<noteq> 0"
  shows "rect_disp_to_rect_pt_f64 (x0d, y0d, x1d, y1d) display_scale img_w_px img_h_px
           page_w_pt page_h_pt =
         Inr (f64 (max 0 (min (f64 (real_of_int img_w_px)) (f64 (min x0d x1d / display_scale)))
                * f64 (page_w_pt / f64 (real_of_int img_w_px))),
              f64 (max 0 (min (f64 (real_of_int img_h_px)) (f64 (min y0d y1d / display_scale)))
                * f64 (page_h_pt / f64 (real_of_int img_h_px))),
              f64 (max 0 (min (f64 (real_of_int img_w_px)) (f64 (max x0d x1d / display_scale)))
                * f64 (page_w_pt / f64 (real_of_int img_w_px))),
              f64 (max 0 (min (f64 (real_of_int img_h_px)) (f64 (max y0d y1d / display_scale)))
                * f64 (page_h_pt / f64 (real_of_int img_h_px))))"
  using assms by (simp add: rect_disp_to_rect_pt_f64_def sorted2_min_max Let_def)

lemma f64_of_pos_int:
  assumes "0 < n"
  shows "1 \<le> f64 (real_of_int n)"
proof -
  have "f64 1 \<le> f64 (real_of_int n)" using assms by (intro f64_mono) simp
  then show ?thesis by (simp add: f64_one)
qed

lemma clamp_scale_f64:
  fixes W s a b d :: real
  assumes "0 \<le> s" "0 < d" "a \<le> b"
  shows "0 \<le> f64 (max 0 (min W (f64 (a / d))) * s)"
    and "f64 (max 0 (min W (f64 (a / d))) * s) \<le> f64 (max 0 (min W (f64 (b / d))) * s)"
    and "0 \<le> W \<Longrightarrow> f64 (max 0 (min W (f64 (b / d))) * s) \<le> f64 (W * s)"
proof -
  show "0 \<le> f64 (max 0 (min W (f64 (a / d))) * s)"
    using assms(1) by (intro f64_nonneg mult_nonneg_nonneg) simp_all
  have "a / d \<le> b / d" using assms by (simp add: divide_right_mono)
  then have "f64 (a / d) \<le> f64 (b / d)" by (rule f64_mono)
  then have "max 0 (min W (f64 (a / d))) \<le> max 0 (min W (f64 (b / d)))" by auto
  then show "f64 (max 0 (min W (f64 (a / d))) * s) \<le> f64 (max 0 (min W (f64 (b / d))) * s)"
    using assms(1) by (intro f64_mono mult_right_mono)
  assume "0 \<le> W"
  then have "max 0 (min W (f64 (b / d))) \<le> W" by simp
  then show "f64 (max 0 (min W (f64 (b / d))) * s) \<le> f64 (W * s)"
    using assms(1) by (intro f64_mono mult_right_mono)
qed

lemma f64_upper:
  assumes "2 powi (- 1022) \<le> x"
  shows "f64 x \<le> x * (1 + 1 / 2 ^ 53)"
proof -
  have "0 < x" using assms zero_less_power_int [of "2::real" "- 1022"] by linarith
  then have "\<bar>f64 x - x\<bar> \<le> x / 2 ^ 53" using f64_rel_error [of x] assms by simp
  then have "f64 x \<le> x + x / 2 ^ 53" by linarith
  also have "\<dots> = x * (1 + 1 / 2 ^ 53)" by (simp add: algebra_simps)
  finally show ?thesis .
qed

lemma f64_scale_back:
  fixes W P :: real
  assumes "1 \<le> W" "W \<le> 2 ^ 53" "1 \<le> P"
  shows "f64 (W * f64 (P / W)) \<le> P * (1 + 1 / 2 ^ 53) ^ 2"
proof -
  let ?u = "1 + 1 / (2::real) ^ 53"
  have W: "0 < W" using assms(1) by simp
  have "(2::real) powi (- 1022) \<le> 2 powi (- 53)"
    by (intro power_int_increasing) simp_all
  also have "\<dots> = 1 / 2 ^ 53" by (simp add: power_int_minus_divide)
  also have "\<dots> \<le> P / W" using assms W by (intro frac_le) simp_all
  finally have q: "2 powi (- 1022) \<le> P / W" .
  have s: "f64 (P / W) \<le> P / W * ?u" by (rule f64_upper [OF q])
  have "f64 (2 powi (- 1022)) \<le> f64 (P / W)" using q by (rule f64_mono)
  moreover have "f64 (2 powi (- 1022)) = 2 powi (- 1022)"
    using f64_exact [of 1 "- 1022"] by simp
  ultimately have s1: "2 powi (- 1022) \<le> f64 (P / W)" by simp
  have "2 powi (- 1022) \<le> 1 * f64 (P / W)" using s1 by simp
  also have "\<dots> \<le> W * f64 (P / W)"
    using assms(1) s1 zero_less_power_int [of "2::real" "- 1022"]
    by (intro mult_right_mono) linarith+
  finally have p: "2 powi (- 1022) \<le> W * f64 (P / W)" .
  have "f64 (W * f64 (P / W)) \<le> W * f64 (P / W) * ?u" by (rule f64_upper [OF p])
  also have "\<dots> \<le> W * (P / W * ?u) * ?u"
    using s W by (intro mult_right_mono mult_left_mono) simp_all
  also have "\<dots> = P * ?u ^ 2" using W by (simp add: power2_eq_square)
  finally show ?thesis .
qed

text \<open>
  Claim C2, as stated: no coordinate of the result exceeds the page. In the binary64
  arithmetic of the source one can, by a unit in the last place. The rectangle
  \<open>(-5, -5, 5000, 5000)\<close>, drawn at display scale 1 over a 37 by 45 pixel render of a
  792 by 792 point page, is clamped to the whole image. The quotient \<open>792 / 37\<close> is
  rounded up, and 37 times the rounded quotient is rounded to \<open>792 + 2 ^ -43\<close>, which
  Python prints as \<^verbatim>\<open>792.0000000000001\<close>; likewise for 45.
\<close>

theorem rect_disp_to_rect_pt_f64_overshoot:
  "rect_disp_to_rect_pt_f64 (- 5, - 5, 5000, 5000) 1 37 45 792 792
     = Inr (0, 0, 792 + 1 / 2 ^ 43, 792 + 1 / 2 ^ 43)
   \<and> (792::real) < 792 + 1 / 2 ^ 43"
proof -
  have i: "f64 (- 5) = - 5" "f64 5000 = 5000" "f64 37 = 37" "f64 45 = 45"
    using f64_of_int [of "- 5"] f64_of_int [of 5000] f64_of_int [of 37] f64_of_int [of 45]
    by simp_all
  have lo: "max 0 (min (f64 (real_of_int 37)) (f64 (min (- 5) 5000 / 1))) = 0"
    "max 0 (min (f64 (real_of_int 45)) (f64 (min (- 5) 5000 / 1))) = 0"
    by (simp_all add: i)
  have hi: "max 0 (min (f64 (real_of_int 37)) (f64 (max (- 5) 5000 / 1))) = 37"
    "max 0 (min (f64 (real_of_int 45)) (f64 (max (- 5) 5000 / 1))) = 45"
    by (simp_all add: i)
  have wh: "f64 (real_of_int 37) = 37" "f64 (real_of_int 45) = 45"
    by (simp_all add: i)
  have sx: "f64 (792 / 37) = 6025085987968637 / 2 ^ 48"
    using f64_binade [of 4 "792 / 37" "- 48"] by (simp add: rne_def)
  have sy: "f64 (792 / 45) = 2476979795053773 / 2 ^ 47"
    using f64_binade [of 4 "792 / 45" "- 48"] by (simp add: rne_def)
  have x1: "f64 (37 * (6025085987968637 / 2 ^ 48)) = 792 + 1 / 2 ^ 43"
    using f64_binade [of 9 "37 * (6025085987968637 / 2 ^ 48)" "- 43"] by (simp add: rne_def)
  have y1: "f64 (45 * (2476979795053773 / 2 ^ 47)) = 792 + 1 / 2 ^ 43"
    using f64_binade [of 9 "45 * (2476979795053773 / 2 ^ 47)" "- 43"] by (simp add: rne_def)
  have z: "f64 (0 * c) = 0" for c by (simp add: f64_0)
  have nz: "(1::real) \<noteq> 0" "(37::int) \<noteq> 0" "(45::int) \<noteq> 0" by simp_all
  have "rect_disp_to_rect_pt_f64 (- 5, - 5, 5000, 5000) 1 37 45 792 792
     = Inr (0, 0, 792 + 1 / 2 ^ 43, 792 + 1 / 2 ^ 43)"
    unfolding rect_disp_to_rect_pt_f64_value [OF nz] lo hi
    unfolding wh sx sy x1 y1 z ..
  then show ?thesis by simp
qed

text \<open>
  Claim C2, amended. With a positive display scale, positive image size and positive page
  size, \<^const>\<open>rect_disp_to_rect_pt_f64\<close> returns a rectangle (it raises nothing): each
  display coordinate is divided by the display scale, clamped into \<open>[0, W]\<close> or
  \<open>[0, H]\<close>, where \<open>W\<close> and \<open>H\<close> are the image width and height as floats, and then
  scaled to points, so that \<open>0 \<le> x0 \<le> x1 \<le> W'\<close> and \<open>0 \<le> y0 \<le> y1 \<le> H'\<close>, wherever
  the drawn rectangle lies. The bound \<open>W'\<close> is the point coordinate that the transform
  gives to the right edge of the image, \<open>f64 (W * f64 (page_w_pt / W))\<close>, and \<open>H'\<close>
  likewise for the bottom edge. They are the page width and height up to the two roundings:
  for an image of at most \<open>2 ^ 53\<close> pixels a side and a page of at least one point a
  side, \<open>W' \<le> page_w_pt * (1 + 2 ^ -53)\<^sup>2\<close> and \<open>H' \<le> page_h_pt * (1 + 2 ^ -53)\<^sup>2\<close>.
\<close>

theorem rect_disp_to_rect_pt_f64_clamped:
  assumes "0 < display_scale" "0 < img_w_px" "0 < img_h_px" "0 < page_w_pt" "0 < page_h_pt"
    and "W = f64 (real_of_int img_w_px)" "H = f64 (real_of_int img_h_px)"
  shows "\<exists>x0 y0 x1 y1.
           rect_disp_to_rect_pt_f64 (x0d, y0d, x1d, y1d) display_scale img_w_px img_h_px
             page_w_pt page_h_pt = Inr (x0, y0, x1, y1)
         \<and> x0 = f64 (max 0 (min W (f64 (min x0d x1d / display_scale))) * f64 (page_w_pt / W))
         \<and> x1 = f64 (max 0 (min W (f64 (max x0d x1d / display_scale))) * f64 (page_w_pt / W))
         \<and> y0 = f64 (max 0 (min H (f64 (min y0d y1d / display_scale))) * f64 (page_h_pt / H))
         \<and> y1 = f64 (max 0 (min H (f64 (max y0d y1d / display_scale))) * f64 (page_h_pt / H))
         \<and> 0 \<le> x0 \<and> x0 \<le> x1 \<and> x1 \<le> f64 (W * f64 (page_w_pt / W))
         \<and> 0 \<le> y0 \<and> y0 \<le> y1 \<and> y1 \<le> f64 (H * f64 (page_h_pt / H))
         \<and> (img_w_px \<le> 2 ^ 53 \<and> 1 \<le> page_w_pt \<longrightarrow>
              f64 (W * f64 (page_w_pt / W)) \<le> page_w_pt * (1 + 1 / 2 ^ 53) ^ 2)
         \<and> (img_h_px \<le> 2 ^ 53 \<and> 1 \<le> page_h_pt \<longrightarrow>
              f64 (H * f64 (page_h_pt / H)) \<le> page_h_pt * (1 + 1 / 2 ^ 53) ^ 2)"
proof -
  have W: "1 \<le> W" and H: "1 \<le> H"
    unfolding assms(6,7) using assms(2,3) by (simp_all add: f64_of_pos_int)
  then have W0: "0 \<le> W" and H0: "0 \<le> H" by simp_all
  have sx: "0 \<le> f64 (page_w_pt / W)" and sy: "0 \<le> f64 (page_h_pt / H)"
    using assms(4,5) W0 H0 by (simp_all add: f64_nonneg)
  have nz: "display_scale \<noteq> 0" "img_w_px \<noteq> 0" "img_h_px \<noteq> 0" using assms by simp_all
  have mx: "min x0d x1d \<le> max x0d x1d" and my: "min y0d y1d \<le> max y0d y1d" by simp_all
  note cx = clamp_scale_f64 [OF sx assms(1) mx, of W]
  note cy = clamp_scale_f64 [OF sy assms(1) my, of H]
  have bw: "img_w_px \<le> 2 ^ 53 \<and> 1 \<le> page_w_pt \<longrightarrow>
              f64 (W * f64 (page_w_pt / W)) \<le> page_w_pt * (1 + 1 / 2 ^ 53) ^ 2"
  proof
    assume a: "img_w_px \<le> 2 ^ 53 \<and> 1 \<le> page_w_pt"
    then have "real_of_int img_w_px \<le> real_of_int (2 ^ 53)" by (simp only: of_int_le_iff)
    then have "W \<le> f64 (real_of_int (2 ^ 53))" unfolding assms(6) by (rule f64_mono)
    also have "\<dots> = 2 ^ 53" using f64_exact [of 1 53] by simp
    finally show "f64 (W * f64 (page_w_pt / W)) \<le> page_w_pt * (1 + 1 / 2 ^ 53) ^ 2"
      using a by (intro f64_scale_back [OF W]) simp_all
  qed
  have bh: "img_h_px \<le> 2 ^ 53 \<and> 1 \<le> page_h_pt \<longrightarrow>
              f64 (H * f64 (page_h_pt / H)) \<le> page_h_pt * (1 + 1 / 2 ^ 53) ^ 2"
  proof
    assume a: "img_h_px \<le> 2 ^ 53 \<and> 1 \<le> page_h_pt"
    then have "real_of_int img_h_px \<le> real_of_int (2 ^ 53)" by (simp only: of_int_le_iff)
    then have "H \<le> f64 (real_of_int (2 ^ 53))" unfolding assms(7) by (rule f64_mono)
    also have "\<dots> = 2 ^ 53" using f64_exact [of 1 53] by simp
    finally show "f64 (H * f64 (page_h_pt / H)) \<le> page_h_pt * (1 + 1 / 2 ^ 53) ^ 2"
      using a by (intro f64_scale_back [OF H]) simp_all
  qed
  show ?thesis
    unfolding rect_disp_to_rect_pt_f64_value [OF nz] assms(6) [symmetric] assms(7) [symmetric]
    using cx(1,2) cx(3) [OF W0] cy(1,2) cy(3) [OF H0] bw bh
    by blast
qed

text \<open>
  The rectangle of the counterexample: its right and bottom edges exceed 792 and stay
  within the rounding bound.
\<close>

theorem rect_disp_to_rect_pt_f64_clamped_witness:
  "\<exists>x0 y0 x1 y1.
     rect_disp_to_rect_pt_f64 (- 5, - 5, 5000, 5000) 1 37 45 792 792 = Inr (x0, y0, x1, y1)
     \<and> 0 \<le> x0 \<and> x0 \<le> x1 \<and> x1 \<le> 792 * (1 + 1 / 2 ^ 53) ^ 2
     \<and> 0 \<le> y0 \<and> y0 \<le> y1 \<and> y1 \<le> 792 * (1 + 1 / 2 ^ 53) ^ 2"
proof -
  have h: "(0::real) < 1" "(0::int) < 37" "(0::int) < 45" "(0::real) < 792" "(0::real) < 792"
    "f64 (real_of_int 37) = f64 (real_of_int 37)" "f64 (real_of_int 45) = f64 (real_of_int 45)"
    by simp_all
  have b: "(37::int) \<le> 2 ^ 53 \<and> (1::real) \<le> 792" "(45::int) \<le> 2 ^ 53 \<and> (1::real) \<le> 792"
    by simp_all
  obtain x0 y0 x1 y1 where
    r: "rect_disp_to_rect_pt_f64 (- 5, - 5, 5000, 5000) 1 37 45 792 792 = Inr (x0, y0, x1, y1)"
    and x: "0 \<le> x0" "x0 \<le> x1"
      "x1 \<le> f64 (f64 (real_of_int 37) * f64 (792 / f64 (real_of_int 37)))"
    and y: "0 \<le> y0" "y0 \<le> y1"
      "y1 \<le> f64 (f64 (real_of_int 45) * f64 (792 / f64 (real_of_int 45)))"
    and ux: "(37::int) \<le> 2 ^ 53 \<and> (1::real) \<le> 792 \<longrightarrow>
      f64 (f64 (real_of_int 37) * f64 (792 / f64 (real_of_int 37)))
        \<le> 792 * (1 + 1 / 2 ^ 53) ^ 2"
    and uy: "(45::int) \<le> 2 ^ 53 \<and> (1::real) \<le> 792 \<longrightarrow>
      f64 (f64 (real_of_int 45) * f64 (792 / f64 (real_of_int 45)))
        \<le> 792 * (1 + 1 / 2 ^ 53) ^ 2"
    using rect_disp_to_rect_pt_f64_clamped [OF h, of "- 5" "- 5" 5000 5000] by blast
  have "x1 \<le> 792 * (1 + 1 / 2 ^ 53) ^ 2" using x(3) mp [OF ux b(1)] by (rule order_trans)
  moreover have "y1 \<le> 792 * (1 + 1 / 2 ^ 53) ^ 2" using y(3) mp [OF uy b(2)] by (rule order_trans)
  ultimately show ?thesis using r x(1,2) y(1,2) by blast
qed

text \<open>
  Claim C7. \<^const>\<open>rect_disp_to_rect_pt\<close> sorts the x pair and the y pair first, so the
  four ways of giving two opposite corners (x swapped, y swapped, both swapped) yield the
  same result; with a positive display scale, image size and page size that result is a
  rectangle with \<open>x0 \<le> x1\<close> and \<open>y0 \<le> y1\<close>.
\<close>

theorem rect_disp_to_rect_pt_corner_order:
  "rect_disp_to_rect_pt (x1d, y0d, x0d, y1d) ds iw ih pw ph
     = rect_disp_to_rect_pt (x0d, y0d, x1d, y1d) ds iw ih pw ph
   \<and> rect_disp_to_rect_pt (x0d, y1d, x1d, y0d) ds iw ih pw ph
     = rect_disp_to_rect_pt (x0d, y0d, x1d, y1d) ds iw ih pw ph
   \<and> rect_disp_to_rect_pt (x1d, y1d, x0d, y0d) ds iw ih pw ph
     = rect_disp_to_rect_pt (x0d, y0d, x1d, y1d) ds iw ih pw ph
   \<and> (0 < ds \<and> 0 < iw \<and> 0 < ih \<and> 0 < pw \<and> 0 < ph \<longrightarrow>
        (\<exists>x0 y0 x1 y1.
            rect_disp_to_rect_pt (x0d, y0d, x1d, y1d) ds iw ih pw ph = Inr (x0, y0, x1, y1)
          \<and> x0 \<le> x1 \<and> y0 \<le> y1))"
proof (intro conjI impI)
  show "rect_disp_to_rect_pt (x1d, y0d, x0d, y1d) ds iw ih pw ph
     = rect_disp_to_rect_pt (x0d, y0d, x1d, y1d) ds iw ih pw ph"
    by (rule rect_disp_to_rect_pt_swap_x)
  show "rect_disp_to_rect_pt (x0d, y1d, x1d, y0d) ds iw ih pw ph
     = rect_disp_to_rect_pt (x0d, y0d, x1d, y1d) ds iw ih pw ph"
    by (rule rect_disp_to_rect_pt_swap_y)
  show "rect_disp_to_rect_pt (x1d, y1d, x0d, y0d) ds iw ih pw ph
     = rect_disp_to_rect_pt (x0d, y0d, x1d, y1d) ds iw ih pw ph"
    by (simp only: rect_disp_to_rect_pt_swap_x [of x1d y1d x0d y0d]
        rect_disp_to_rect_pt_swap_y [of x0d y1d x1d y0d])
next
  assume a: "0 < ds \<and> 0 < iw \<and> 0 < ih \<and> 0 < pw \<and> 0 < ph"
  let ?w = "real_of_int iw" and ?h = "real_of_int ih"
  have w: "0 < ?w" and h: "0 < ?h" and pw: "0 \<le> pw" and ph: "0 \<le> ph" and ds: "0 < ds"
    using a by simp_all
  have nz: "ds \<noteq> 0" "iw \<noteq> 0" "ih \<noteq> 0" using a by simp_all
  have "max 0 (min ?w (min x0d x1d / ds)) * (pw / ?w)
          \<le> max 0 (min ?w (max x0d x1d / ds)) * (pw / ?w)"
    by (rule clamp_scale_mono [OF w pw ds]) simp
  moreover have "max 0 (min ?h (min y0d y1d / ds)) * (ph / ?h)
          \<le> max 0 (min ?h (max y0d y1d / ds)) * (ph / ?h)"
    by (rule clamp_scale_mono [OF h ph ds]) simp
  ultimately show "\<exists>x0 y0 x1 y1.
            rect_disp_to_rect_pt (x0d, y0d, x1d, y1d) ds iw ih pw ph = Inr (x0, y0, x1, y1)
          \<and> x0 \<le> x1 \<and> y0 \<le> y1"
    unfolding rect_disp_to_rect_pt_value [OF nz] by blast
qed

text \<open>
  The corners \<open>(300, 150)\<close> and \<open>(100, 100)\<close>, given bottom-right first, on the page of
  the specification's scenario (display scale \<open>900/1224\<close>).
\<close>

theorem rect_disp_to_rect_pt_corner_order_witness:
  "rect_disp_to_rect_pt (300, 150, 100, 100) (900/1224) 1224 1584 612 792
     = rect_disp_to_rect_pt (100, 100, 300, 150) (900/1224) 1224 1584 612 792
   \<and> (\<exists>x0 y0 x1 y1.
        rect_disp_to_rect_pt (100, 100, 300, 150) (900/1224) 1224 1584 612 792
          = Inr (x0, y0, x1, y1) \<and> x0 \<le> x1 \<and> y0 \<le> y1)"
  using rect_disp_to_rect_pt_corner_order [of 300 100 100 150 "900/1224" 1224 1584 612 792]
  by simp

text \<open>
  Claim C1, as stated: the round trip recovers every point rectangle. It does not: a
  rectangle that leaves the page is clamped to it. On a 100 by 100 point page rendered
  at 200 by 200 pixels and shown at scale 1, the rectangle \<open>(-10, 0, 10, 10)\<close> comes
  back as \<open>(0, 0, 10, 10)\<close>. Every intermediate value is a small integer or a half, so
  the floating-point run of the source computes the same numbers.
\<close>

theorem round_trip_counterexample:
  "round_trip (-10, 0, 10, 10) 1 200 200 100 100 = Inr (0, 0, 10, 10)"
  by (simp add: round_trip_def rect_pt_to_rect_px_def scale_rect_def
      rect_disp_to_rect_pt_def sorted2_def Let_def)

text \<open>
  Claim C1, amended. For a positive display scale, image size and page size, and a
  normalised point rectangle that lies on the page
  (\<open>0 \<le> x0 \<le> x1 \<le> page_w_pt\<close>, \<open>0 \<le> y0 \<le> y1 \<le> page_h_pt\<close>), the round trip
  through pixel and display space returns the rectangle itself (in exact arithmetic).
\<close>

theorem round_trip_on_page:
  assumes "0 < display_scale" "0 < img_w_px" "0 < img_h_px" "0 < page_w_pt" "0 < page_h_pt"
    and "0 \<le> x0" "x0 \<le> x1" "x1 \<le> page_w_pt"
    and "0 \<le> y0" "y0 \<le> y1" "y1 \<le> page_h_pt"
  shows "round_trip (x0, y0, x1, y1) display_scale img_w_px img_h_px page_w_pt page_h_pt
           = Inr (x0, y0, x1, y1)"
proof -
  let ?w = "real_of_int img_w_px" and ?h = "real_of_int img_h_px"
  have w: "0 < ?w" and h: "0 < ?h" using assms by simp_all
  have nz: "display_scale \<noteq> 0" "img_w_px \<noteq> 0" "img_h_px \<noteq> 0" using assms by simp_all
  have mx: "min (x0 * (?w / page_w_pt) * display_scale) (x1 * (?w / page_w_pt) * display_scale)
              = x0 * (?w / page_w_pt) * display_scale"
           "max (x0 * (?w / page_w_pt) * display_scale) (x1 * (?w / page_w_pt) * display_scale)
              = x1 * (?w / page_w_pt) * display_scale"
    using scale_scale_mono [OF w assms(4) assms(1) assms(7)] by simp_all
  have my: "min (y0 * (?h / page_h_pt) * display_scale) (y1 * (?h / page_h_pt) * display_scale)
              = y0 * (?h / page_h_pt) * display_scale"
           "max (y0 * (?h / page_h_pt) * display_scale) (y1 * (?h / page_h_pt) * display_scale)
              = y1 * (?h / page_h_pt) * display_scale"
    using scale_scale_mono [OF h assms(5) assms(1) assms(10)] by simp_all
  have x1: "0 \<le> x1" "x0 \<le> page_w_pt" and y1: "0 \<le> y1" "y0 \<le> page_h_pt"
    using assms by simp_all
  have "round_trip (x0, y0, x1, y1) display_scale img_w_px img_h_px page_w_pt page_h_pt
      = rect_disp_to_rect_pt
          (x0 * (?w / page_w_pt) * display_scale, y0 * (?h / page_h_pt) * display_scale,
           x1 * (?w / page_w_pt) * display_scale, y1 * (?h / page_h_pt) * display_scale)
          display_scale img_w_px img_h_px page_w_pt page_h_pt"
    using assms(4,5) by (simp add: round_trip_def rect_pt_to_rect_px_def scale_rect_def Let_def)
  also have "\<dots> = Inr (x0, y0, x1, y1)"
    by (simp only: rect_disp_to_rect_pt_value [OF nz] mx my
        clamp_scale_back [OF w assms(4) assms(1) assms(6) x1(2)]
        clamp_scale_back [OF w assms(4) assms(1) x1(1) assms(8)]
        clamp_scale_back [OF h assms(5) assms(1) assms(9) y1(2)]
        clamp_scale_back [OF h assms(5) assms(1) y1(1) assms(11)])
  finally show ?thesis .
qed

text \<open>
  The specification's page (612 by 792 points at 1224 by 1584 pixels, display scale
  \<open>900/1224\<close>) and the point rectangle \<open>(68, 68, 204, 102)\<close>.
\<close>

theorem round_trip_on_page_witness:
  "round_trip (68, 68, 204, 102) (900/1224) 1224 1584 612 792 = Inr (68, 68, 204, 102)"
proof -
  have h: "(0::real) < 900/1224" "(0::int) < 1224" "(0::int) < 1584" "(0::real) < 612"
    "(0::real) < 792" "(0::real) \<le> 68" "(68::real) \<le> 204" "(204::real) \<le> 612"
    "(0::real) \<le> 68" "(68::real) \<le> 102" "(102::real) \<le> 792"
    by simp_all
  show ?thesis by (rule round_trip_on_page [OF h])
qed

section \<open>Properties of the text layout\<close>

lemma split_on_nonempty: "split_on sep s \<noteq> []"
  by (induction s) (auto split: list.splits)

lemma split_on_no_sep: "p \<in> set (split_on sep s) \<Longrightarrow> sep \<notin> set p"
proof (induction s arbitrary: p)
  case Nil
  then show ?case by simp
next
  case (Cons c s)
  then show ?case
    by (cases "split_on sep s") (auto split: if_splits)
qed

lemma split_on_id: "sep \<notin> set s \<Longrightarrow> split_on sep s = [s]"
  by (induction s) auto

lemma strip_empty_iff: "strip s = [] \<longleftrightarrow> (\<forall>c\<in>set s. isspace c)"
proof -
  have r: "rstrip t = [] \<longleftrightarrow> (\<forall>c\<in>set t. isspace c)" for t
    by (simp add: rstrip_def dropWhile_eq_Nil_conv)
  have d: "(\<forall>c\<in>set (dropWhile isspace s). isspace c) \<longleftrightarrow> (\<forall>c\<in>set s. isspace c)"
  proof
    assume a: "\<forall>c\<in>set (dropWhile isspace s). isspace c"
    show "\<forall>c\<in>set s. isspace c"
    proof
      fix c assume "c \<in> set s"
      then have "c \<in> set (takeWhile isspace s) \<or> c \<in> set (dropWhile isspace s)"
        by (metis Un_iff set_append takeWhile_dropWhile_id)
      then show "isspace c" using a by (auto dest: set_takeWhileD)
    qed
  next
    assume "\<forall>c\<in>set s. isspace c"
    then show "\<forall>c\<in>set (dropWhile isspace s). isspace c"
      by (auto dest: set_dropWhileD)
  qed
  show ?thesis by (simp add: strip_def r d)
qed

lemma wrap_words_acc:
  "wrap_words textlength max_width lines cur ws =
     (case wrap_words textlength max_width [] cur ws of (c, ls) \<Rightarrow> (c, lines @ ls))"
proof (induction ws arbitrary: lines cur)
  case Nil
  then show ?case by simp
next
  case (Cons w ws)
  let ?trial = "if cur = [] then w else cur @ [32] @ w"
  show ?case
  proof (cases "textlength ?trial \<le> real_of_int max_width")
    case True
    then show ?thesis using Cons.IH [of lines ?trial] by (simp add: Let_def)
  next
    case False
    show ?thesis
    proof (cases "cur = []")
      case True
      then show ?thesis using False Cons.IH [of lines w] by (simp add: Let_def)
    next
      case ne: False
      have "wrap_words textlength max_width (lines @ [cur]) w ws =
            (case wrap_words textlength max_width [] w ws of (c, ls) \<Rightarrow> (c, (lines @ [cur]) @ ls))"
        by (rule Cons.IH)
      moreover have "wrap_words textlength max_width [cur] w ws =
            (case wrap_words textlength max_width [] w ws of (c, ls) \<Rightarrow> (c, [cur] @ ls))"
        by (rule Cons.IH)
      ultimately show ?thesis using False ne
        by (simp add: Let_def split: prod.splits)
    qed
  qed
qed

lemma wrap_paragraphs_acc:
  "wrap_paragraphs textlength max_width lines ps = lines @ concat (map (wrap_paragraph textlength max_width) ps)"
proof (induction ps arbitrary: lines)
  case Nil
  then show ?case by simp
next
  case (Cons p ps)
  show ?case
  proof (cases "strip p = []")
    case True
    then show ?thesis using Cons.IH [of "lines @ [[]]"]
      by (simp add: wrap_paragraph_def)
  next
    case False
    obtain c ls where w: "wrap_words textlength max_width [] [] (split_on 32 p) = (c, ls)"
      by (cases "wrap_words textlength max_width [] [] (split_on 32 p)")
    then have wl: "wrap_words textlength max_width lines [] (split_on 32 p) = (c, lines @ ls)"
      using wrap_words_acc [of textlength max_width lines "[]" "split_on 32 p"] by simp
    show ?thesis
      using False w wl Cons.IH [of "if c \<noteq> [] then (lines @ ls) @ [c] else lines @ ls"]
      by (simp add: wrap_paragraph_def)
  qed
qed

lemma wrap_words_good:
  assumes "set ws \<subseteq> W"
    and "cur = [] \<or> textlength cur \<le> real_of_int max_width \<or> cur \<in> W"
    and "\<forall>l\<in>set lines. l = [] \<or> textlength l \<le> real_of_int max_width \<or> l \<in> W"
    and "wrap_words textlength max_width lines cur ws = (cur', lines')"
  shows "(cur' = [] \<or> textlength cur' \<le> real_of_int max_width \<or> cur' \<in> W)
       \<and> (\<forall>l\<in>set lines'. l = [] \<or> textlength l \<le> real_of_int max_width \<or> l \<in> W)"
  using assms
proof (induction ws arbitrary: lines cur)
  case Nil
  then show ?case by simp
next
  case (Cons w ws)
  let ?trial = "if cur = [] then w else cur @ [32] @ w"
  have ws: "set ws \<subseteq> W" and w: "w \<in> W" using Cons.prems(1) by simp_all
  show ?case
  proof (cases "textlength ?trial \<le> real_of_int max_width")
    case True
    then have "wrap_words textlength max_width lines ?trial ws = (cur', lines')"
      using Cons.prems(4) by (simp add: Let_def)
    from Cons.IH [OF ws _ Cons.prems(3) this] True show ?thesis by blast
  next
    case False
    let ?lines = "if cur \<noteq> [] then lines @ [cur] else lines"
    have run: "wrap_words textlength max_width ?lines w ws = (cur', lines')"
      using Cons.prems(4) False by (simp add: Let_def)
    have l: "\<forall>l\<in>set ?lines. l = [] \<or> textlength l \<le> real_of_int max_width \<or> l \<in> W"
      using Cons.prems(2,3) by auto
    from Cons.IH [OF ws _ l run] w show ?thesis by blast
  qed
qed

lemma wrap_paragraphs_good:
  assumes "set ps \<subseteq> P"
    and "\<forall>l\<in>set lines. l = [] \<or> textlength l \<le> real_of_int max_width \<or> (\<exists>p\<in>P. l \<in> set (split_on 32 p))"
  shows "\<forall>l\<in>set (wrap_paragraphs textlength max_width lines ps).
           l = [] \<or> textlength l \<le> real_of_int max_width \<or> (\<exists>p\<in>P. l \<in> set (split_on 32 p))"
  using assms
proof (induction ps arbitrary: lines)
  case Nil
  then show ?case by simp
next
  case (Cons p ps)
  let ?W = "{l. \<exists>p\<in>P. l \<in> set (split_on 32 p)}"
  have ps: "set ps \<subseteq> P" and p: "p \<in> P" using Cons.prems(1) by simp_all
  show ?case
  proof (cases "strip p = []")
    case True
    have "\<forall>l\<in>set (lines @ [[]]). l = [] \<or> textlength l \<le> real_of_int max_width \<or> (\<exists>p\<in>P. l \<in> set (split_on 32 p))"
      using Cons.prems(2) by auto
    from Cons.IH [OF ps this] True show ?thesis by simp
  next
    case False
    obtain c ls where w: "wrap_words textlength max_width lines [] (split_on 32 p) = (c, ls)"
      by (cases "wrap_words textlength max_width lines [] (split_on 32 p)")
    have sub: "set (split_on 32 p) \<subseteq> ?W" using p by auto
    have l0: "\<forall>l\<in>set lines. l = [] \<or> textlength l \<le> real_of_int max_width \<or> l \<in> ?W"
      using Cons.prems(2) by simp
    have g: "(c = [] \<or> textlength c \<le> real_of_int max_width \<or> c \<in> ?W)
       \<and> (\<forall>l\<in>set ls. l = [] \<or> textlength l \<le> real_of_int max_width \<or> l \<in> ?W)"
      by (rule wrap_words_good [OF sub _ l0 w]) simp
    then have "\<forall>l\<in>set (if c \<noteq> [] then ls @ [c] else ls).
        l = [] \<or> textlength l \<le> real_of_int max_width \<or> (\<exists>p\<in>P. l \<in> set (split_on 32 p))"
      by auto
    from Cons.IH [OF ps this] False w show ?thesis by simp
  qed
qed


text \<open>
  Claim C4. \<^const>\<open>wrap_text\<close> is a function of the measured widths, the text and the
  width: the same inputs give the same lines. Every line it produces either has a
  measured width of at most \<open>max_width\<close>, or is a single word: splitting it at spaces, as
  \<^const>\<open>wrap_text\<close> splits a paragraph into words, gives the line itself, and unless it is
  the empty line of a blank paragraph it is one of the words of a paragraph of the text,
  whole.
\<close>

theorem wrap_text_lines_fit:
  "((\<forall>s. textlength s = textlength' s) \<longrightarrow>
      wrap_text textlength text max_width = wrap_text textlength' text max_width)
   \<and> (\<forall>l\<in>set (wrap_text textlength text max_width).
         textlength l \<le> real_of_int max_width
       \<or> (split_on 32 l = [l]
          \<and> (l \<noteq> [] \<longrightarrow> (\<exists>p\<in>set (paragraphs text). l \<in> set (split_on 32 p)))))"
proof (intro conjI impI ballI)
  assume "\<forall>s. textlength s = textlength' s"
  then have "textlength = textlength'" by (simp add: fun_eq_iff)
  then show "wrap_text textlength text max_width = wrap_text textlength' text max_width"
    by simp
next
  fix l
  assume l: "l \<in> set (wrap_text textlength text max_width)"
  have "\<forall>l\<in>set (wrap_paragraphs textlength max_width [] (paragraphs text)).
          l = [] \<or> textlength l \<le> real_of_int max_width
        \<or> (\<exists>p\<in>set (paragraphs text). l \<in> set (split_on 32 p))"
    by (rule wrap_paragraphs_good) simp_all
  then have g: "l = [] \<or> textlength l \<le> real_of_int max_width
        \<or> (\<exists>p\<in>set (paragraphs text). l \<in> set (split_on 32 p))"
    using l by (simp add: wrap_text_def)
  show "textlength l \<le> real_of_int max_width
       \<or> (split_on 32 l = [l]
          \<and> (l \<noteq> [] \<longrightarrow> (\<exists>p\<in>set (paragraphs text). l \<in> set (split_on 32 p))))"
    using g by (auto dest: split_on_no_sep intro: split_on_id)
qed

text \<open>
  The text \<^verbatim>\<open>hi longword x\<close> with one unit of width per character and four units of
  room: \<^verbatim>\<open>longword\<close> is too wide and stands alone.
\<close>

theorem wrap_text_lines_fit_witness:
  "wrap_text (\<lambda>s. real (length s)) (Some [104, 105, 32, 108, 111, 110, 103, 119, 111, 114, 100, 32, 120]) 4
     = [[104, 105], [108, 111, 110, 103, 119, 111, 114, 100], [120]]
   \<and> \<not> real (length [108, 111, 110, 103, 119, 111, 114, 100 :: nat]) \<le> real_of_int 4
   \<and> split_on 32 [108, 111, 110, 103, 119, 111, 114, 100] = [[108, 111, 110, 103, 119, 111, 114, 100]]
   \<and> (\<exists>p\<in>set (paragraphs (Some [104, 105, 32, 108, 111, 110, 103, 119, 111, 114, 100, 32, 120])).
        [108, 111, 110, 103, 119, 111, 114, 100] \<in> set (split_on 32 p))"
  using wrap_text_lines_fit [of "\<lambda>s. real (length s)" "\<lambda>s. real (length s)"
      "Some [104, 105, 32, 108, 111, 110, 103, 119, 111, 114, 100, 32, 120]" 4]
  by (simp add: wrap_text_def paragraphs_def strip_def rstrip_def isspace_def)

text \<open>
  Claim C10. The text \<^verbatim>\<open>None\<close> and the empty text give the one empty line. The lines
  of a text are the lines of its paragraphs, in order, and a paragraph made of whitespace
  only (the empty paragraph included) gives exactly one line, the empty one: the
  whitespace is dropped.
\<close>

theorem wrap_text_blank_paragraph:
  "wrap_text textlength None max_width = [[]]
   \<and> wrap_text textlength (Some []) max_width = [[]]
   \<and> wrap_text textlength text max_width
       = concat (map (wrap_paragraph textlength max_width) (paragraphs text))
   \<and> ((\<forall>c\<in>set paragraph. isspace c) \<longrightarrow>
        wrap_paragraph textlength max_width paragraph = [[]])"
proof (intro conjI impI)
  show "wrap_text textlength None max_width = [[]]"
    by (simp add: wrap_text_def paragraphs_def strip_def rstrip_def)
  show "wrap_text textlength (Some []) max_width = [[]]"
    by (simp add: wrap_text_def paragraphs_def strip_def rstrip_def)
  show "wrap_text textlength text max_width
       = concat (map (wrap_paragraph textlength max_width) (paragraphs text))"
    using wrap_paragraphs_acc [of textlength max_width "[]" "paragraphs text"]
    by (simp add: wrap_text_def)
next
  assume "\<forall>c\<in>set paragraph. isspace c"
  then have "strip paragraph = []" by (simp add: strip_empty_iff)
  then show "wrap_paragraph textlength max_width paragraph = [[]]"
    by (simp add: wrap_paragraph_def)
qed

text \<open>
  The paragraph of a space, a tab and a no-break space, alone and between the
  paragraphs \<^verbatim>\<open>a\<close> and \<^verbatim>\<open>b\<close>.
\<close>

theorem wrap_text_blank_paragraph_witness:
  "isspace 32 \<and> isspace 9 \<and> isspace 160
   \<and> wrap_paragraph (\<lambda>s. real (length s)) 5 [32, 9, 160] = [[]]
   \<and> wrap_text (\<lambda>s. real (length s)) (Some [97, 10, 32, 9, 160, 10, 98]) 5 = [[97], [], [98]]"
  using wrap_text_blank_paragraph [of "\<lambda>s. real (length s)" 5
      "Some [97, 10, 32, 9, 160, 10, 98]" "[32, 9, 160]"]
  by (simp add: paragraphs_def wrap_paragraph_def strip_def rstrip_def isspace_def)

section \<open>Properties of the preview overlays\<close>

lemma centred_box:
  fixes t n x :: int
  assumes "n \<le> t"
  shows "x \<le> x + (t - n) div 2"
    and "x + (t - n) div 2 + n \<le> x + t"
    and "0 \<le> ((x + t) - (x + (t - n) div 2 + n)) - (x + (t - n) div 2 - x)"
    and "((x + t) - (x + (t - n) div 2 + n)) - (x + (t - n) div 2 - x) \<le> 1"
  using assms by presburger+

lemma f64_min: "min (f64 a) (f64 b) = f64 (min a b)"
proof (cases "a \<le> b")
  case True
  then show ?thesis using f64_mono [OF True] by (simp add: min_def)
next
  case False
  then have "b \<le> a" by simp
  then show ?thesis using f64_mono [of b a] by (simp add: min_def)
qed

text \<open>Two roundings: the scale, then the product of a side with it.\<close>

lemma f64_scaled_side:
  fixes a s :: real
  assumes "1 \<le> a" "1 / 2 ^ 25 \<le> s"
  shows "\<bar>f64 (a * f64 s) - a * s\<bar> \<le> 3 / 2 ^ 53 * (a * s)"
proof -
  define u :: real where "u = 1 / 2 ^ 53"
  define A where "A = a * s"
  define G where "G = a * f64 s"
  have u: "0 < u" "u \<le> 1 / 2" by (simp_all add: u_def)
  have low: "(2::real) powi (- 1022) \<le> 1 / 2 ^ 26"
  proof -
    have "(2::real) powi (- 1022) \<le> 2 powi (- 26)" by (intro power_int_increasing) simp_all
    then show ?thesis by (simp add: power_int_minus_divide)
  qed
  have s0: "0 < s" using assms(2) by (rule less_le_trans [rotated]) simp
  have "2 powi (- 1022) \<le> \<bar>s\<bar>" using low assms(2) s0 by simp
  then have e1: "\<bar>f64 s - s\<bar> \<le> s * u" using f64_rel_error [of s] s0 by (simp add: u_def)
  have A0: "0 < A" using assms(1) s0 by (simp add: A_def)
  have d1: "\<bar>G - A\<bar> \<le> A * u"
  proof -
    have "\<bar>G - A\<bar> = a * \<bar>f64 s - s\<bar>"
      unfolding G_def A_def using assms(1) by (simp add: abs_mult right_diff_distrib [symmetric])
    also have "\<dots> \<le> a * (s * u)" using e1 assms(1) by (intro mult_left_mono) simp_all
    finally show ?thesis by (simp add: A_def mult.assoc)
  qed
  have Au: "A * u \<le> A * (1 / 2)" using A0 u by (intro mult_left_mono) simp_all
  then have Au2: "A * u \<le> A / 2" by simp
  have g_lo: "A / 2 \<le> G" using d1 Au2 by linarith
  have g_hi: "G \<le> 2 * A" using d1 Au2 A0 by linarith
  have "1 / 2 ^ 25 \<le> 1 * s" using assms(2) by simp
  also have "\<dots> \<le> A" unfolding A_def using assms(1) s0 by (intro mult_right_mono) simp_all
  finally have "1 / 2 ^ 26 \<le> A / 2" by simp
  then have G0: "0 < G" and g: "2 powi (- 1022) \<le> \<bar>G\<bar>" using low g_lo A0 by linarith+
  have "\<bar>f64 G - G\<bar> \<le> \<bar>G\<bar> / 2 ^ 53" by (rule f64_rel_error [OF g])
  also have "\<dots> = G * u" using G0 by (simp add: u_def)
  also have "\<dots> \<le> 2 * A * u" using g_hi u by (intro mult_right_mono) simp_all
  finally have d2: "\<bar>f64 G - G\<bar> \<le> 2 * (A * u)" by simp
  have "\<bar>f64 G - A\<bar> \<le> 3 * (A * u)" using d1 d2 by linarith
  then show ?thesis by (simp add: G_def A_def u_def)
qed

text \<open>
  Truncating a float that is that close to the quotient \<open>N / b\<close> of two integers loses at
  most one pixel.
\<close>

lemma trunc_close:
  fixes F :: real and N b :: int
  assumes "0 < b" "0 < N" "N < 2 ^ 50"
    and "\<bar>F - real_of_int N / real_of_int b\<bar> \<le> 3 / 2 ^ 53 * (real_of_int N / real_of_int b)"
  shows "\<bar>real_of_int (max 1 (py_int F)) - real_of_int N / real_of_int b\<bar> \<le> 1"
    and "real_of_int N / real_of_int b \<le> real_of_int t \<Longrightarrow> 1 \<le> t \<Longrightarrow> max 1 (py_int F) \<le> t"
proof -
  define E where "E = real_of_int N / real_of_int b"
  define v :: real where "v = 3 / 2 ^ 53"
  define n where "n = \<lfloor>F\<rfloor>"
  have v: "0 < v" "v \<le> 1" by (simp_all add: v_def)
  have b: "1 \<le> real_of_int b" and b0: "0 < real_of_int b" using assms(1) by simp_all
  have N: "0 < real_of_int N" using assms(2) by simp
  have E: "0 < E" using b0 N by (simp add: E_def)
  have bE: "real_of_int b * E = real_of_int N" using b0 by (simp add: E_def)
  have "real_of_int N < 2 ^ 50"
    using assms(3) by (metis of_int_less_iff of_int_numeral of_int_power)
  then have vN: "v * real_of_int N < 1" by (simp add: v_def)
  have "1 * E \<le> real_of_int b * E" using b E by (intro mult_right_mono) simp_all
  then have "E \<le> real_of_int N" using bE by simp
  then have "v * E \<le> v * real_of_int N" using v by (intro mult_left_mono) simp_all
  then have vE: "v * E < 1" using vN by linarith
  have "v * E \<le> 1 * E" using E v by (intro mult_right_mono) simp_all
  then have vE': "v * E \<le> E" by simp
  have d: "\<bar>F - E\<bar> \<le> v * E" using assms(4) by (simp only: E_def v_def)
  then have lo: "E - v * E \<le> F" and hi: "F \<le> E + v * E" by linarith+
  have F0: "0 \<le> F" using lo vE' by linarith
  then have pi: "py_int F = n" by (simp add: py_int_def n_def)
  have fl: "real_of_int n \<le> F" "F < real_of_int n + 1" unfolding n_def by linarith+
  have up: "real_of_int (max 1 n) \<le> E + 1"
  proof (cases "1 \<le> n")
    case True
    then have "max 1 n = n" by simp
    then show ?thesis using fl(1) hi vE by linarith
  next
    case False
    then have "max 1 n = 1" by simp
    then show ?thesis using E by simp
  qed
  have "E - v * E < real_of_int n + 1" using lo fl(2) by linarith
  then have "real_of_int b * (E - v * E) < real_of_int b * (real_of_int n + 1)"
    using b0 by (intro mult_strict_left_mono)
  moreover have "real_of_int b * (E - v * E) = real_of_int N - v * real_of_int N"
    using bE by (simp add: algebra_simps)
  ultimately have "real_of_int N - 1 < real_of_int b * (real_of_int n + 1)"
    using vN by linarith
  then have "real_of_int (N - 1) < real_of_int (b * (n + 1))" by simp
  then have "N - 1 < b * (n + 1)" by (simp only: of_int_less_iff)
  then have "N \<le> b * (n + 1)" by simp
  then have "real_of_int N \<le> real_of_int (b * (n + 1))" by (simp only: of_int_le_iff)
  then have "real_of_int b * E \<le> real_of_int b * (real_of_int n + 1)"
    unfolding bE by simp
  then have "E \<le> real_of_int n + 1" using b0 by (simp only: mult_le_cancel_left_pos)
  moreover have "real_of_int n \<le> real_of_int (max 1 n)" by simp
  ultimately have dn: "E - 1 \<le> real_of_int (max 1 n)" by linarith
  show "\<bar>real_of_int (max 1 (py_int F)) - real_of_int N / real_of_int b\<bar> \<le> 1"
    unfolding pi E_def [symmetric] using up dn by linarith
  assume t: "real_of_int N / real_of_int b \<le> real_of_int t" "1 \<le> t"
  have "real_of_int n < real_of_int t + 1" using fl(1) hi vE t(1) unfolding E_def by linarith
  then have "real_of_int n < real_of_int (t + 1)" by simp
  then have "n < t + 1" by (simp only: of_int_less_iff)
  then show "max 1 (py_int F) \<le> t" unfolding pi using t(2) by simp
qed

lemma scaled_side_ok:
  fixes a t b :: int
  assumes "0 < a" "a < 2 ^ 25" "0 < t" "t < 2 ^ 25" "0 < b" "b < 2 ^ 25"
  shows "\<bar>real_of_int (max 1 (py_int (f64 (real_of_int a * f64 (real_of_int t / real_of_int b)))))
            - real_of_int a * (real_of_int t / real_of_int b)\<bar> \<le> 1"
    and "real_of_int a * (real_of_int t / real_of_int b) \<le> real_of_int bound \<Longrightarrow> 1 \<le> bound \<Longrightarrow>
           max 1 (py_int (f64 (real_of_int a * f64 (real_of_int t / real_of_int b)))) \<le> bound"
proof -
  define F where "F = f64 (real_of_int a * f64 (real_of_int t / real_of_int b))"
  have a: "1 \<le> real_of_int a" using assms(1) by simp
  have "real_of_int b \<le> 2 ^ 25"
    using assms(6) by (metis less_imp_le of_int_le_iff of_int_numeral of_int_power)
  moreover have "1 \<le> real_of_int t" "0 < real_of_int b" using assms(3,5) by simp_all
  ultimately have s: "1 / 2 ^ 25 \<le> real_of_int t / real_of_int b"
    by (intro frac_le) simp_all
  have e: "real_of_int a * (real_of_int t / real_of_int b) = real_of_int (a * t) / real_of_int b"
    by simp
  have d: "\<bar>F - real_of_int (a * t) / real_of_int b\<bar>
             \<le> 3 / 2 ^ 53 * (real_of_int (a * t) / real_of_int b)"
    unfolding F_def e [symmetric] by (rule f64_scaled_side [OF a s])
  have N0: "0 < a * t" using assms(1,3) by simp
  have "a * t < 2 ^ 25 * 2 ^ 25"
    using assms(1-4) by (intro mult_strict_mono) simp_all
  then have N: "a * t < 2 ^ 50" by simp
  show "\<bar>real_of_int (max 1 (py_int (f64 (real_of_int a * f64 (real_of_int t / real_of_int b)))))
            - real_of_int a * (real_of_int t / real_of_int b)\<bar> \<le> 1"
    unfolding e F_def [symmetric] by (rule trunc_close(1) [OF assms(5) N0 N d])
  assume "real_of_int a * (real_of_int t / real_of_int b) \<le> real_of_int bound" "1 \<le> bound"
  then show "max 1 (py_int (f64 (real_of_int a * f64 (real_of_int t / real_of_int b)))) \<le> bound"
    unfolding e F_def [symmetric] by (rule trunc_close(2) [OF assms(5) N0 N d])
qed

lemma stamp_box_keep_ratio:
  assumes "0 < sw" "sw < 2 ^ 25" "0 < sh" "sh < 2 ^ 25"
    and "scale = min (real_of_int (max 1 (x1 - x0)) / real_of_int sw)
                     (real_of_int (max 1 (y1 - y0)) / real_of_int sh)"
    and "nw = max 1 (py_int (f64 (real_of_int sw * f64 scale)))"
    and "nh = max 1 (py_int (f64 (real_of_int sh * f64 scale)))"
  shows "stamp_box True (x0, y0, x1, y1) (sw, sh)
      = Inr ((nw, nh), (x0 + (max 1 (x1 - x0) - nw) div 2, y0 + (max 1 (y1 - y0) - nh) div 2))"
proof -
  have "\<bar>sw\<bar> < 2 ^ 53" "\<bar>sh\<bar> < 2 ^ 53" using assms(1-4) by simp_all
  then have i: "f64 (real_of_int sw) = real_of_int sw" "f64 (real_of_int sh) = real_of_int sh"
    by (simp_all add: f64_of_int)
  show ?thesis
    unfolding assms(5,6,7) stamp_box_def Let_def
    using assms(1,3) by (simp add: f64_min i)
qed

text \<open>
  Claim C5, as stated: with the flag unset the resized stamp has exactly the width and
  height of the target rectangle. Not when the rectangle is narrower than a pixel: lines
  160 and 161 take at least one pixel. The rectangle from \<open>(10, 10)\<close> to \<open>(10, 60)\<close> has
  width 0, and the stamp is resized to width 1.
\<close>

theorem stamp_box_degenerate_rectangle:
  "stamp_box False (10, 10, 10, 60) (200, 50) = Inr ((1, 50), (10, 10))
   \<and> (1::int) \<noteq> 10 - 10"
  by (simp add: stamp_box_def)

text \<open>
  Claim C5, amended. Let \<open>target_w\<close> and \<open>target_h\<close> be the width and height of the target
  rectangle, raised to one pixel where they are less, as lines 160 and 161 take them.
  With the flag unset the stamp is resized to exactly \<open>(target_w, target_h)\<close>, which is
  the width and height of the rectangle when it is at least one pixel wide and high, and
  placed at the corner of the rectangle. With the flag set, for a stamp and a target
  whose sides are positive and below \<open>2 ^ 25\<close> pixels, the new size comes from the one
  scale \<open>min (target_w / sw) (target_h / sh)\<close>, rounded to binary64: each side is the
  truncated binary64 product of the stamp's side and the rounded scale, at least one
  pixel, and differs from the exactly scaled side by at most one pixel (so the ratio is
  kept up to integer rounding; a whole pixel is lost where the product is rounded below
  an integer); the resized stamp does not exceed the target in either direction; and it
  is centred: it lies inside the target and its two margins differ by at most one pixel
  on each axis.
\<close>

theorem stamp_box_fits:
  assumes "target_w = max 1 (x1 - x0)" "target_h = max 1 (y1 - y0)"
    and "scale = min (real_of_int target_w / real_of_int sw)
                     (real_of_int target_h / real_of_int sh)"
  shows "stamp_box False (x0, y0, x1, y1) (sw, sh) = Inr ((target_w, target_h), (x0, y0))
       \<and> (1 \<le> x1 - x0 \<and> 1 \<le> y1 - y0 \<longrightarrow>
            stamp_box False (x0, y0, x1, y1) (sw, sh) = Inr ((x1 - x0, y1 - y0), (x0, y0)))
       \<and> (0 < sw \<and> sw < 2 ^ 25 \<and> 0 < sh \<and> sh < 2 ^ 25
            \<and> target_w < 2 ^ 25 \<and> target_h < 2 ^ 25 \<longrightarrow>
           (\<exists>nw nh px py.
               stamp_box True (x0, y0, x1, y1) (sw, sh) = Inr ((nw, nh), (px, py))
             \<and> nw = max 1 (py_int (f64 (real_of_int sw * f64 scale)))
             \<and> nh = max 1 (py_int (f64 (real_of_int sh * f64 scale)))
             \<and> \<bar>real_of_int nw - real_of_int sw * scale\<bar> \<le> 1
             \<and> \<bar>real_of_int nh - real_of_int sh * scale\<bar> \<le> 1
             \<and> 1 \<le> nw \<and> nw \<le> target_w \<and> 1 \<le> nh \<and> nh \<le> target_h
             \<and> px = x0 + (target_w - nw) div 2 \<and> py = y0 + (target_h - nh) div 2
             \<and> x0 \<le> px \<and> px + nw \<le> x0 + target_w
             \<and> y0 \<le> py \<and> py + nh \<le> y0 + target_h
             \<and> 0 \<le> ((x0 + target_w) - (px + nw)) - (px - x0)
             \<and> ((x0 + target_w) - (px + nw)) - (px - x0) \<le> 1
             \<and> 0 \<le> ((y0 + target_h) - (py + nh)) - (py - y0)
             \<and> ((y0 + target_h) - (py + nh)) - (py - y0) \<le> 1))"
proof (intro conjI impI)
  show "stamp_box False (x0, y0, x1, y1) (sw, sh) = Inr ((target_w, target_h), (x0, y0))"
    using assms(1,2) by (simp add: stamp_box_def)
next
  assume "1 \<le> x1 - x0 \<and> 1 \<le> y1 - y0"
  then show "stamp_box False (x0, y0, x1, y1) (sw, sh) = Inr ((x1 - x0, y1 - y0), (x0, y0))"
    by (simp add: stamp_box_def)
next
  assume pos: "0 < sw \<and> sw < 2 ^ 25 \<and> 0 < sh \<and> sh < 2 ^ 25
            \<and> target_w < 2 ^ 25 \<and> target_h < 2 ^ 25"
  then have sw: "0 < sw" "sw < 2 ^ 25" and sh: "0 < sh" "sh < 2 ^ 25"
    and tw2: "target_w < 2 ^ 25" and th2: "target_h < 2 ^ 25" by simp_all
  define nw where "nw = max 1 (py_int (f64 (real_of_int sw * f64 scale)))"
  define nh where "nh = max 1 (py_int (f64 (real_of_int sh * f64 scale)))"
  have tw: "1 \<le> target_w" and th: "1 \<le> target_h" using assms(1,2) by simp_all
  then have tw0: "0 < target_w" and th0: "0 < target_h" by simp_all
  have rsw: "0 < real_of_int sw" and rsh: "0 < real_of_int sh" using sw sh by simp_all
  obtain t b where tb: "scale = real_of_int t / real_of_int b"
    and t: "0 < t" "t < 2 ^ 25" and b: "0 < b" "b < 2 ^ 25"
  proof (cases "real_of_int target_w / real_of_int sw \<le> real_of_int target_h / real_of_int sh")
    case True
    then have "scale = real_of_int target_w / real_of_int sw" unfolding assms(3) by simp
    then show ?thesis using that [of target_w sw] tw0 tw2 sw by simp
  next
    case False
    then have "scale = real_of_int target_h / real_of_int sh" unfolding assms(3) by simp
    then show ?thesis using that [of target_h sh] th0 th2 sh by simp
  qed
  have "real_of_int sw * scale \<le> real_of_int sw * (real_of_int target_w / real_of_int sw)"
    unfolding assms(3) using rsw by (intro mult_left_mono) simp_all
  then have lw: "real_of_int sw * (real_of_int t / real_of_int b) \<le> real_of_int target_w"
    using rsw tb by simp
  have "real_of_int sh * scale \<le> real_of_int sh * (real_of_int target_h / real_of_int sh)"
    unfolding assms(3) using rsh by (intro mult_left_mono) simp_all
  then have lh: "real_of_int sh * (real_of_int t / real_of_int b) \<le> real_of_int target_h"
    using rsh tb by simp
  have nw_le: "nw \<le> target_w"
    unfolding nw_def tb by (rule scaled_side_ok(2) [OF sw t b lw tw])
  have nh_le: "nh \<le> target_h"
    unfolding nh_def tb by (rule scaled_side_ok(2) [OF sh t b lh th])
  have nw_ge: "1 \<le> nw" and nh_ge: "1 \<le> nh" by (simp_all add: nw_def nh_def)
  have cw: "\<bar>real_of_int nw - real_of_int sw * scale\<bar> \<le> 1"
    unfolding nw_def tb by (rule scaled_side_ok(1) [OF sw t b])
  have ch: "\<bar>real_of_int nh - real_of_int sh * scale\<bar> \<le> 1"
    unfolding nh_def tb by (rule scaled_side_ok(1) [OF sh t b])
  have run: "stamp_box True (x0, y0, x1, y1) (sw, sh)
      = Inr ((nw, nh), (x0 + (target_w - nw) div 2, y0 + (target_h - nh) div 2))"
    unfolding assms(1,2)
    by (rule stamp_box_keep_ratio [OF sw sh assms(3) [unfolded assms(1,2)] nw_def nh_def])
  have "stamp_box True (x0, y0, x1, y1) (sw, sh)
          = Inr ((nw, nh), (x0 + (target_w - nw) div 2, y0 + (target_h - nh) div 2))
        \<and> nw = max 1 (py_int (f64 (real_of_int sw * f64 scale)))
        \<and> nh = max 1 (py_int (f64 (real_of_int sh * f64 scale)))
        \<and> \<bar>real_of_int nw - real_of_int sw * scale\<bar> \<le> 1
        \<and> \<bar>real_of_int nh - real_of_int sh * scale\<bar> \<le> 1
        \<and> 1 \<le> nw \<and> nw \<le> target_w \<and> 1 \<le> nh \<and> nh \<le> target_h
        \<and> x0 + (target_w - nw) div 2 = x0 + (target_w - nw) div 2
        \<and> y0 + (target_h - nh) div 2 = y0 + (target_h - nh) div 2
        \<and> x0 \<le> x0 + (target_w - nw) div 2
        \<and> x0 + (target_w - nw) div 2 + nw \<le> x0 + target_w
        \<and> y0 \<le> y0 + (target_h - nh) div 2
        \<and> y0 + (target_h - nh) div 2 + nh \<le> y0 + target_h
        \<and> 0 \<le> ((x0 + target_w) - (x0 + (target_w - nw) div 2 + nw))
                 - (x0 + (target_w - nw) div 2 - x0)
        \<and> ((x0 + target_w) - (x0 + (target_w - nw) div 2 + nw))
                 - (x0 + (target_w - nw) div 2 - x0) \<le> 1
        \<and> 0 \<le> ((y0 + target_h) - (y0 + (target_h - nh) div 2 + nh))
                 - (y0 + (target_h - nh) div 2 - y0)
        \<and> ((y0 + target_h) - (y0 + (target_h - nh) div 2 + nh))
                 - (y0 + (target_h - nh) div 2 - y0) \<le> 1"
    using run nw_def nh_def cw ch nw_ge nw_le nh_ge nh_le
      centred_box [OF nw_le, of x0] centred_box [OF nh_le, of y0]
    by (intro conjI) (assumption | rule refl)+
  then show "\<exists>nw nh px py.
               stamp_box True (x0, y0, x1, y1) (sw, sh) = Inr ((nw, nh), (px, py))
             \<and> nw = max 1 (py_int (f64 (real_of_int sw * f64 scale)))
             \<and> nh = max 1 (py_int (f64 (real_of_int sh * f64 scale)))
             \<and> \<bar>real_of_int nw - real_of_int sw * scale\<bar> \<le> 1
             \<and> \<bar>real_of_int nh - real_of_int sh * scale\<bar> \<le> 1
             \<and> 1 \<le> nw \<and> nw \<le> target_w \<and> 1 \<le> nh \<and> nh \<le> target_h
             \<and> px = x0 + (target_w - nw) div 2 \<and> py = y0 + (target_h - nh) div 2
             \<and> x0 \<le> px \<and> px + nw \<le> x0 + target_w
             \<and> y0 \<le> py \<and> py + nh \<le> y0 + target_h
             \<and> 0 \<le> ((x0 + target_w) - (px + nw)) - (px - x0)
             \<and> ((x0 + target_w) - (px + nw)) - (px - x0) \<le> 1
             \<and> 0 \<le> ((y0 + target_h) - (py + nh)) - (py - y0)
             \<and> ((y0 + target_h) - (py + nh)) - (py - y0) \<le> 1"
    by (intro exI)
qed

text \<open>
  A stamp of 150 by 150 pixels in the rectangle from \<open>(0, 0)\<close> to \<open>(55, 55)\<close>: the
  quotient \<open>55 / 150\<close> is rounded down, 150 times the rounded quotient is rounded to the
  float just below 55, and the stamp is resized to 54 by 54 pixels.
\<close>

theorem stamp_box_fits_witness:
  "stamp_box False (0, 0, 55, 55) (150, 150) = Inr ((55, 55), (0, 0))
   \<and> stamp_box True (0, 0, 55, 55) (150, 150) = Inr ((54, 54), (0, 0))
   \<and> (\<exists>nw nh px py.
        stamp_box True (0, 0, 55, 55) (150, 150) = Inr ((nw, nh), (px, py))
        \<and> \<bar>real_of_int nw - 55\<bar> \<le> 1 \<and> \<bar>real_of_int nh - 55\<bar> \<le> 1
        \<and> nw \<le> 55 \<and> nh \<le> 55 \<and> 0 \<le> px \<and> px + nw \<le> 0 + 55)"
proof -
  have h: "(55::int) = max 1 (55 - 0)" "(55::int) = max 1 (55 - 0)"
    "(11 / 30::real) = min (real_of_int 55 / real_of_int 150) (real_of_int 55 / real_of_int 150)"
    by simp_all
  have p: "(0::int) < 150 \<and> (150::int) < 2 ^ 25 \<and> (0::int) < 150 \<and> (150::int) < 2 ^ 25
            \<and> (55::int) < 2 ^ 25 \<and> (55::int) < 2 ^ 25"
    by simp
  note t = stamp_box_fits [OF h]
  have a: "stamp_box False (0, 0, 55, 55) (150, 150) = Inr ((55, 55), (0, 0))"
    by (rule conjunct1 [OF t])
  obtain nw nh px py where
    r: "stamp_box True (0, 0, 55, 55) (150, 150) = Inr ((nw, nh), (px, py))"
    and nw: "nw = max 1 (py_int (f64 (real_of_int 150 * f64 (11 / 30))))"
    and nh: "nh = max 1 (py_int (f64 (real_of_int 150 * f64 (11 / 30))))"
    and c: "\<bar>real_of_int nw - real_of_int 150 * (11 / 30)\<bar> \<le> 1"
      "\<bar>real_of_int nh - real_of_int 150 * (11 / 30)\<bar> \<le> 1"
    and f: "nw \<le> 55" "nh \<le> 55"
    and o: "px = 0 + (55 - nw) div 2" "py = 0 + (55 - nh) div 2"
    and m: "0 \<le> px" "px + nw \<le> 0 + 55"
    using mp [OF conjunct2 [OF conjunct2 [OF t]] p] by blast
  have s1: "f64 (11 / 30) = 6605279453476727 / 2 ^ 54"
    using f64_binade [of "- 2" "11 / 30" "- 54"] by (simp add: rne_def)
  have s2: "f64 (150 * (6605279453476727 / 2 ^ 54)) = 7740561859543039 / 2 ^ 47"
    using f64_binade [of 5 "150 * (6605279453476727 / 2 ^ 54)" "- 47"] by (simp add: rne_def)
  have s3: "max 1 (py_int (7740561859543039 / 2 ^ 47)) = 54"
    by (simp add: py_int_def)
  have i: "real_of_int 150 = 150" by simp
  have v: "nw = 54" "nh = 54" unfolding nw nh i s1 s2 s3 by (rule refl)+
  have e: "stamp_box True (0, 0, 55, 55) (150, 150) = Inr ((54, 54), (0, 0))"
    using r o unfolding v by simp
  have "\<bar>real_of_int nw - 55\<bar> \<le> 1" "\<bar>real_of_int nh - 55\<bar> \<le> 1" using c by simp_all
  then show ?thesis using a e r f m by blast
qed

lemma truncate_last:
  assumes "1 \<le> n" "n < length ls"
  shows "take n ls \<noteq> []"
    and "(take n ls)[length (take n ls) - 1 := v] = take (n - 1) ls @ [v]"
    and "last (take n ls) = ls ! (n - 1)"
proof -
  obtain m where m: "n = Suc m" using assms(1) by (cases n) simp_all
  have t: "take n ls = take m ls @ [ls ! m]"
    using assms(2) unfolding m by (simp add: take_Suc_conv_app_nth)
  have l: "length (take m ls) = m" using assms(2) m by simp
  show "take n ls \<noteq> []" unfolding t by simp
  show "(take n ls)[length (take n ls) - 1 := v] = take (n - 1) ls @ [v]"
    unfolding t using l list_update_length [of "take m ls" "ls ! m" "[]" v] by (simp add: m)
  show "last (take n ls) = ls ! (n - 1)" unfolding t by (simp add: m)
qed

lemma overlay_lines_run:
  assumes "line_height bbox \<noteq> 0"
    and "lines = wrap_text textlength (Some message) (max 10 ((x1 - x0) - 2 * 10))"
    and "max_lines = max 1 (((y1 - y0) - 2 * 10) div line_height bbox)"
  shows "overlay_lines textlength bbox (x0, y0, x1, y1) message =
     (if max_lines < int (length lines)
      then Inr (take (nat max_lines - 1) lines
                  @ [rstrip (lines ! (nat max_lines - 1)) @ [32, 8230]])
      else Inr lines)"
proof -
  have one: "1 \<le> max_lines" unfolding assms(3) by simp
  have unf: "overlay_lines textlength bbox (x0, y0, x1, y1) message =
     (if max_lines < int (length lines)
      then if take (nat max_lines) lines = [] then Inl IndexError
           else Inr ((take (nat max_lines) lines)
                  [length (take (nat max_lines) lines) - 1
                     := rstrip (last (take (nat max_lines) lines)) @ [32, 8230]])
      else Inr lines)"
    unfolding overlay_lines_def Let_def assms(2) assms(3) using assms(1) by simp
  show ?thesis
  proof (cases "max_lines < int (length lines)")
    case True
    have n: "1 \<le> nat max_lines" "nat max_lines < length lines"
      using True one by linarith+
    show ?thesis
      unfolding unf using True truncate_last [OF n] by simp
  next
    case False
    then show ?thesis unfolding unf by simp
  qed
qed

text \<open>
  Claim C3. In the text overlay the maximum number of visible lines is
  \<open>max 1 \<lfloor>available_height / line_height\<rfloor>\<close>, where the available height is the
  pixel height of the rectangle minus twice the padding of 10. When \<^const>\<open>wrap_text\<close>
  gives no more lines than that, they are drawn as they are; when it gives more, exactly
  the first \<open>max_lines\<close> lines are kept and the last kept line is its right-stripped text
  followed by the ellipsis marker (a space and U+2026). So for a box whose height allows
  exactly \<open>k \<ge> 1\<close> lines and a message that wraps to \<open>k + 3\<close> lines, \<open>k\<close> lines are
  drawn and the last one ends with the ellipsis marker.
\<close>

theorem overlay_lines_truncation:
  assumes "line_h = (b3 - b1) + 4" "line_h \<noteq> 0"
    and "lines = wrap_text textlength (Some message) (max 10 ((x1 - x0) - 2 * 10))"
    and "max_lines = max 1 \<lfloor>real_of_int ((y1 - y0) - 2 * 10) / real_of_int line_h\<rfloor>"
  shows "(int (length lines) \<le> max_lines \<longrightarrow>
            overlay_lines textlength (b0, b1, b2, b3) (x0, y0, x1, y1) message = Inr lines)
       \<and> (max_lines < int (length lines) \<longrightarrow>
            (\<exists>out. overlay_lines textlength (b0, b1, b2, b3) (x0, y0, x1, y1) message = Inr out
               \<and> out = take (nat max_lines - 1) lines
                        @ [rstrip (lines ! (nat max_lines - 1)) @ [32, 8230]]
               \<and> int (length out) = max_lines
               \<and> last out = rstrip (lines ! (nat max_lines - 1)) @ [32, 8230]))
       \<and> (\<forall>k. 1 \<le> k
              \<and> \<lfloor>real_of_int ((y1 - y0) - 2 * 10) / real_of_int line_h\<rfloor> = k
              \<and> int (length lines) = k + 3 \<longrightarrow>
            (\<exists>out. overlay_lines textlength (b0, b1, b2, b3) (x0, y0, x1, y1) message = Inr out
               \<and> int (length out) = k
               \<and> (\<exists>s. last out = s @ [32, 8230])))"
proof -
  have lh: "line_height (b0, b1, b2, b3) = line_h"
    by (simp add: line_height_def assms(1))
  have nz: "line_height (b0, b1, b2, b3) \<noteq> 0" using lh assms(2) by simp
  have fl: "\<lfloor>real_of_int ((y1 - y0) - 2 * 10) / real_of_int line_h\<rfloor>
              = ((y1 - y0) - 2 * 10) div line_h"
    by (rule floor_divide_of_int_eq)
  have ml: "max_lines = max 1 (((y1 - y0) - 2 * 10) div line_height (b0, b1, b2, b3))"
    unfolding assms(4) fl lh ..
  have run: "overlay_lines textlength (b0, b1, b2, b3) (x0, y0, x1, y1) message =
      (if max_lines < int (length lines)
       then Inr (take (nat max_lines - 1) lines
                   @ [rstrip (lines ! (nat max_lines - 1)) @ [32, 8230]])
       else Inr lines)"
    by (rule overlay_lines_run [OF nz assms(3) ml])
  have one: "1 \<le> max_lines" unfolding assms(4) by simp
  have short: "int (length lines) \<le> max_lines \<longrightarrow>
            overlay_lines textlength (b0, b1, b2, b3) (x0, y0, x1, y1) message = Inr lines"
    unfolding run by simp
  have long: "\<exists>out. overlay_lines textlength (b0, b1, b2, b3) (x0, y0, x1, y1) message = Inr out
               \<and> out = take (nat max_lines - 1) lines
                        @ [rstrip (lines ! (nat max_lines - 1)) @ [32, 8230]]
               \<and> int (length out) = max_lines
               \<and> last out = rstrip (lines ! (nat max_lines - 1)) @ [32, 8230]"
    if "max_lines < int (length lines)"
  proof -
    have "int (length (take (nat max_lines - 1) lines
                        @ [rstrip (lines ! (nat max_lines - 1)) @ [32, 8230]])) = max_lines"
      using that one by simp
    then show ?thesis unfolding run using that by simp
  qed
  have third: "\<exists>out. overlay_lines textlength (b0, b1, b2, b3) (x0, y0, x1, y1) message = Inr out
               \<and> int (length out) = k \<and> (\<exists>s. last out = s @ [32, 8230])"
    if "1 \<le> k \<and> \<lfloor>real_of_int ((y1 - y0) - 2 * 10) / real_of_int line_h\<rfloor> = k
          \<and> int (length lines) = k + 3" for k
  proof -
    have "max_lines = k" unfolding assms(4) using that by simp
    moreover have "max_lines < int (length lines)" using that \<open>max_lines = k\<close> by simp
    ultimately show ?thesis using long by blast
  qed
  show ?thesis using short long third by blast
qed

text \<open>
  Five words of two letters, six pixels per character, in a box 30 pixels wide and 50
  high with lines of 14 pixels: every word is a line, two lines fit, and the second
  word carries a trailing tab that the truncation strips.
\<close>

theorem overlay_lines_truncation_witness:
  "overlay_lines (\<lambda>s. 6 * real (length s)) (0, 2, 12, 12) (0, 0, 30, 50)
     [97, 97, 32, 98, 98, 9, 32, 99, 99, 32, 100, 100, 32, 101, 101]
     = Inr [[97, 97], [98, 98, 32, 8230]]
   \<and> wrap_text (\<lambda>s. 6 * real (length s))
       (Some [97, 97, 32, 98, 98, 9, 32, 99, 99, 32, 100, 100, 32, 101, 101]) 10
     = [[97, 97], [98, 98, 9], [99, 99], [100, 100], [101, 101]]
   \<and> \<lfloor>real_of_int (50 - 0 - 2 * 10) / real_of_int 14\<rfloor> = 2"
  using overlay_lines_truncation [of 14 12 2 "[[97, 97], [98, 98, 9], [99, 99], [100, 100], [101, 101]]"
      "\<lambda>s. 6 * real (length s)" "[97, 97, 32, 98, 98, 9, 32, 99, 99, 32, 100, 100, 32, 101, 101]"
      30 0 2 50 0 0 12]
  by (simp add: wrap_text_def paragraphs_def strip_def rstrip_def isspace_def
      overlay_lines_def line_height_def)

section \<open>Properties of the rectangle extractor\<close>

lemma rects_of_dicts:
  "rects_of (map JObj ds)
     = Inr (filter (\<lambda>d. map_of d (pys ''type'') = Some (JStr (pys ''rect''))) ds)"
  by (induction ds) (simp_all add: bind_err_def)


text \<open>
  Claim C8. \<^const>\<open>get_last_rect_from_canvas\<close> returns \<^verbatim>\<open>None\<close>, and raises nothing,
  when the canvas data is \<^verbatim>\<open>None\<close> or an empty dictionary, when it has no
  \<^verbatim>\<open>"objects"\<close> entry or an empty (falsy) one, and when no object in its list of
  objects has type \<^verbatim>\<open>"rect"\<close>. Otherwise it takes the last object of type
  \<^verbatim>\<open>"rect"\<close> in the list and, with \<open>l\<close>, \<open>t\<close>, \<open>w\<close>, \<open>sx\<close>, \<open>h\<close>, \<open>sy\<close> the float
  values of its \<^verbatim>\<open>left\<close>, \<^verbatim>\<open>top\<close>, \<^verbatim>\<open>width\<close>, \<^verbatim>\<open>scaleX\<close>, \<^verbatim>\<open>height\<close> and
  \<^verbatim>\<open>scaleY\<close> entries (0, 0, 0, 1, 0, 1 where absent), returns
  \<open>(l, t, l + w * sx, t + h * sy)\<close>, not sorted.
\<close>

theorem get_last_rect_from_canvas_selection:
  "get_last_rect_from_canvas str_float None = Inr None
   \<and> get_last_rect_from_canvas str_float (Some []) = Inr None
   \<and> (map_of cj (pys ''objects'') = None \<longrightarrow>
        get_last_rect_from_canvas str_float (Some cj) = Inr None)
   \<and> (map_of cj (pys ''objects'') = Some v \<and> \<not> truthy v \<longrightarrow>
        get_last_rect_from_canvas str_float (Some cj) = Inr None)
   \<and> (map_of cj (pys ''objects'') = Some (JArr (map JObj ds))
        \<and> (\<forall>d\<in>set ds. map_of d (pys ''type'') \<noteq> Some (JStr (pys ''rect''))) \<longrightarrow>
        get_last_rect_from_canvas str_float (Some cj) = Inr None)
   \<and> (map_of cj (pys ''objects'') = Some (JArr (map JObj ds))
        \<and> rects = filter (\<lambda>d. map_of d (pys ''type'') = Some (JStr (pys ''rect''))) ds
        \<and> rects \<noteq> []
        \<and> py_float str_float (dict_get (last rects) (pys ''left'') (JNum 0)) = Inr l
        \<and> py_float str_float (dict_get (last rects) (pys ''top'') (JNum 0)) = Inr t
        \<and> py_float str_float (dict_get (last rects) (pys ''width'') (JNum 0)) = Inr w
        \<and> py_float str_float (dict_get (last rects) (pys ''scaleX'') (JNum 1)) = Inr sx
        \<and> py_float str_float (dict_get (last rects) (pys ''height'') (JNum 0)) = Inr h
        \<and> py_float str_float (dict_get (last rects) (pys ''scaleY'') (JNum 1)) = Inr sy \<longrightarrow>
        get_last_rect_from_canvas str_float (Some cj)
          = Inr (Some (l, t, l + w * sx, t + h * sy)))"
proof (intro conjI impI)
  show "get_last_rect_from_canvas str_float None = Inr None"
    by (simp add: get_last_rect_from_canvas_def)
  show "get_last_rect_from_canvas str_float (Some []) = Inr None"
    by (simp add: get_last_rect_from_canvas_def)
next
  assume "map_of cj (pys ''objects'') = None"
  then show "get_last_rect_from_canvas str_float (Some cj) = Inr None"
    by (simp add: get_last_rect_from_canvas_def)
next
  assume "map_of cj (pys ''objects'') = Some v \<and> \<not> truthy v"
  then show "get_last_rect_from_canvas str_float (Some cj) = Inr None"
    by (simp add: get_last_rect_from_canvas_def)
next
  assume a: "map_of cj (pys ''objects'') = Some (JArr (map JObj ds))
        \<and> (\<forall>d\<in>set ds. map_of d (pys ''type'') \<noteq> Some (JStr (pys ''rect'')))"
  then have f: "filter (\<lambda>d. map_of d (pys ''type'') = Some (JStr (pys ''rect''))) ds = []"
    by (simp add: filter_empty_conv)
  have ne: "cj \<noteq> []" using a by auto
  show "get_last_rect_from_canvas str_float (Some cj) = Inr None"
    using a ne by (simp add: get_last_rect_from_canvas_def rects_of_dicts f bind_err_def)
next
  assume a: "map_of cj (pys ''objects'') = Some (JArr (map JObj ds))
        \<and> rects = filter (\<lambda>d. map_of d (pys ''type'') = Some (JStr (pys ''rect''))) ds
        \<and> rects \<noteq> []
        \<and> py_float str_float (dict_get (last rects) (pys ''left'') (JNum 0)) = Inr l
        \<and> py_float str_float (dict_get (last rects) (pys ''top'') (JNum 0)) = Inr t
        \<and> py_float str_float (dict_get (last rects) (pys ''width'') (JNum 0)) = Inr w
        \<and> py_float str_float (dict_get (last rects) (pys ''scaleX'') (JNum 1)) = Inr sx
        \<and> py_float str_float (dict_get (last rects) (pys ''height'') (JNum 0)) = Inr h
        \<and> py_float str_float (dict_get (last rects) (pys ''scaleY'') (JNum 1)) = Inr sy"
  have m: "map_of cj (pys ''objects'') = Some (JArr (map JObj ds))" using a by blast
  have rne: "rects \<noteq> []" using a by blast
  have fs: "py_float str_float (dict_get (last rects) (pys ''left'') (JNum 0)) = Inr l"
    "py_float str_float (dict_get (last rects) (pys ''top'') (JNum 0)) = Inr t"
    "py_float str_float (dict_get (last rects) (pys ''width'') (JNum 0)) = Inr w"
    "py_float str_float (dict_get (last rects) (pys ''scaleX'') (JNum 1)) = Inr sx"
    "py_float str_float (dict_get (last rects) (pys ''height'') (JNum 0)) = Inr h"
    "py_float str_float (dict_get (last rects) (pys ''scaleY'') (JNum 1)) = Inr sy"
    using a by blast+
  have ne: "cj \<noteq> []" using m by auto
  have ds: "ds \<noteq> []" using a by auto
  have r: "rects_of (map JObj ds) = Inr rects" using a by (simp add: rects_of_dicts)
  show "get_last_rect_from_canvas str_float (Some cj)
          = Inr (Some (l, t, l + w * sx, t + h * sy))"
    unfolding get_last_rect_from_canvas_def
    by (simp add: m ne ds r rne fs bind_err_def Let_def)
qed

text \<open>
  A canvas with two rectangles, a circle between them and a path after them: the second
  rectangle wins, and as it was drawn leftwards (negative width, \<^verbatim>\<open>scaleX\<close> 2) its
  right edge 40 stays before its left edge 100. A canvas with a circle only has no
  selection.
\<close>

theorem get_last_rect_from_canvas_selection_witness:
  "get_last_rect_from_canvas (\<lambda>s. None)
     (Some [(pys ''version'', JStr (pys ''4.4.0'')),
        (pys ''objects'', JArr (map JObj
        [[(pys ''type'', JStr (pys ''rect'')), (pys ''left'', JNum 10), (pys ''top'', JNum 20),
          (pys ''width'', JNum 30), (pys ''height'', JNum 40)],
         [(pys ''type'', JStr (pys ''circle'')), (pys ''left'', JNum 1)],
         [(pys ''type'', JStr (pys ''rect'')), (pys ''left'', JNum 100), (pys ''top'', JNum 50),
          (pys ''width'', JNum (-30)), (pys ''height'', JNum 40), (pys ''scaleX'', JNum 2)],
         [(pys ''type'', JStr (pys ''path''))]]))])
     = Inr (Some (100, 50, 40, 90))
   \<and> get_last_rect_from_canvas (\<lambda>s. None)
        (Some [(pys ''objects'', JArr (map JObj [[(pys ''type'', JStr (pys ''circle''))]]))])
       = Inr None"
  using get_last_rect_from_canvas_selection [of "\<lambda>s. None"
      "[(pys ''version'', JStr (pys ''4.4.0'')),
        (pys ''objects'', JArr (map JObj
        [[(pys ''type'', JStr (pys ''rect'')), (pys ''left'', JNum 10), (pys ''top'', JNum 20),
          (pys ''width'', JNum 30), (pys ''height'', JNum 40)],
         [(pys ''type'', JStr (pys ''circle'')), (pys ''left'', JNum 1)],
         [(pys ''type'', JStr (pys ''rect'')), (pys ''left'', JNum 100), (pys ''top'', JNum 50),
          (pys ''width'', JNum (-30)), (pys ''height'', JNum 40), (pys ''scaleX'', JNum 2)],
         [(pys ''type'', JStr (pys ''path''))]]))]"
      "JArr []"
      "[[(pys ''type'', JStr (pys ''rect'')), (pys ''left'', JNum 10), (pys ''top'', JNum 20),
          (pys ''width'', JNum 30), (pys ''height'', JNum 40)],
         [(pys ''type'', JStr (pys ''circle'')), (pys ''left'', JNum 1)],
         [(pys ''type'', JStr (pys ''rect'')), (pys ''left'', JNum 100), (pys ''top'', JNum 50),
          (pys ''width'', JNum (-30)), (pys ''height'', JNum 40), (pys ''scaleX'', JNum 2)],
         [(pys ''type'', JStr (pys ''path''))]]"
      "[[(pys ''type'', JStr (pys ''rect'')), (pys ''left'', JNum 10), (pys ''top'', JNum 20),
          (pys ''width'', JNum 30), (pys ''height'', JNum 40)],
         [(pys ''type'', JStr (pys ''rect'')), (pys ''left'', JNum 100), (pys ''top'', JNum 50),
          (pys ''width'', JNum (-30)), (pys ''height'', JNum 40), (pys ''scaleX'', JNum 2)]]"
      100 50 "-30" 2 40 1]
    get_last_rect_from_canvas_selection [of "\<lambda>s. None"
      "[(pys ''objects'', JArr (map JObj [[(pys ''type'', JStr (pys ''circle''))]]))]"
      "JArr []"
      "[[(pys ''type'', JStr (pys ''circle''))]]" "[]" 0 0 0 0 0 0]
  by (simp add: pys_def dict_get_def)

section \<open>Properties of the document mutator\<close>

lemma apply_pages_filter:
  "apply_pages fz message font_pt stamp keep doc items
     = apply_pages fz message font_pt stamp keep doc
         (filter (\<lambda>(pno, d). 0 \<le> pno \<and> pno < int (length doc)) items)"
proof (induction items arbitrary: doc)
  case Nil
  then show ?case by simp
next
  case (Cons it items)
  obtain pno d where it: "it = (pno, d)" by (cases it)
  show ?case
  proof (cases "pno < 0 \<or> pno \<ge> int (length doc)")
    case True
    then have n: "(0 \<le> pno \<and> pno < int (length doc)) = False" by auto
    have skip: "apply_pages fz message font_pt stamp keep doc ((pno, d) # items)
        = apply_pages fz message font_pt stamp keep doc items"
      using True by simp
    show ?thesis unfolding it skip using Cons.IH [of doc] by (simp add: n)
  next
    case False
    have ih: "apply_pages fz message font_pt stamp keep (doc[nat pno := p]) items
        = apply_pages fz message font_pt stamp keep (doc[nat pno := p])
            (filter (\<lambda>(pno, d). 0 \<le> pno \<and> pno < int (length doc)) items)" for p
      using Cons.IH [of "doc[nat pno := p]"] by simp
    from False have "0 \<le> pno \<and> pno < int (length doc)" by auto
    then show ?thesis
      using False unfolding it by (simp add: ih Let_def)
  qed
qed

lemma apply_pages_none_in_range:
  assumes "\<forall>(pno, d)\<in>set items. pno < 0 \<or> int (length doc) \<le> pno"
  shows "apply_pages fz message font_pt stamp keep doc items = Inr doc"
  using assms by (induction items) auto

text \<open>
  Claim C6. For a document that opens, \<^const>\<open>apply_edits_to_pdf\<close> gives the same result,
  value or exception, on a mapping and on that mapping without the entries whose page
  index is negative or at least the page count: such entries raise nothing and change
  nothing, and the entries in range are processed as they would be alone. When every
  entry is out of range, the result is the unchanged document, serialised.
\<close>

theorem apply_edits_to_pdf_skips_out_of_range:
  assumes "fitz_open fz pdf_bytes = Inr doc"
  shows "apply_edits_to_pdf fz pdf_bytes rects_by_page message font_pt stamp_png_bytes keep_ratio
           = apply_edits_to_pdf fz pdf_bytes
               (filter (\<lambda>(pno, d). 0 \<le> pno \<and> pno < int (length doc)) rects_by_page)
               message font_pt stamp_png_bytes keep_ratio
       \<and> ((\<forall>(pno, d)\<in>set rects_by_page. pno < 0 \<or> int (length doc) \<le> pno) \<longrightarrow>
            apply_edits_to_pdf fz pdf_bytes rects_by_page message font_pt stamp_png_bytes
              keep_ratio = Inr (tobytes fz doc))"
proof (intro conjI impI)
  show "apply_edits_to_pdf fz pdf_bytes rects_by_page message font_pt stamp_png_bytes keep_ratio
           = apply_edits_to_pdf fz pdf_bytes
               (filter (\<lambda>(pno, d). 0 \<le> pno \<and> pno < int (length doc)) rects_by_page)
               message font_pt stamp_png_bytes keep_ratio"
    unfolding apply_edits_to_pdf_def assms bind_err_def
    using apply_pages_filter [of fz message font_pt stamp_png_bytes keep_ratio doc rects_by_page]
    by simp
next
  assume "\<forall>(pno, d)\<in>set rects_by_page. pno < 0 \<or> int (length doc) \<le> pno"
  then have "apply_pages fz message font_pt stamp_png_bytes keep_ratio doc rects_by_page = Inr doc"
    by (rule apply_pages_none_in_range)
  then show "apply_edits_to_pdf fz pdf_bytes rects_by_page message font_pt stamp_png_bytes
              keep_ratio = Inr (tobytes fz doc)"
    unfolding apply_edits_to_pdf_def assms bind_err_def by simp
qed

text \<open>
  A document of three empty pages, where inserting appends to the page and the
  serialisation lists the number of insertions per page. A mapping for pages 5 and 1
  edits page 1 only; a mapping for page 5 alone leaves the document as it was.
\<close>

theorem apply_edits_to_pdf_skips_out_of_range_witness:
  "apply_edits_to_pdf
     \<lparr>fitz_open = (\<lambda>b. Inr [[], [], []]),
       insert_textbox = (\<lambda>r m f page. Inr (page @ [m])),
       insert_image = (\<lambda>r b k page. Inr (page @ [b])),
       tobytes = (\<lambda>doc. map length doc)\<rparr>
     [37, 80, 68, 70]
     [(5, [pys ''texto'' \<mapsto> (68, 68, 204, 102)]), (1, [pys ''texto'' \<mapsto> (68, 68, 204, 102)])]
     [104, 105] 11 None True
   = Inr [0, 1, 0]
   \<and> apply_edits_to_pdf
     \<lparr>fitz_open = (\<lambda>b. Inr [[], [], []]),
       insert_textbox = (\<lambda>r m f page. Inr (page @ [m])),
       insert_image = (\<lambda>r b k page. Inr (page @ [b])),
       tobytes = (\<lambda>doc. map length doc)\<rparr>
     [37, 80, 68, 70]
     [(5, [pys ''texto'' \<mapsto> (68, 68, 204, 102)])]
     [104, 105] 11 None True
   = Inr [0, 0, 0]"
proof -
  let ?fz = "\<lparr>fitz_open = (\<lambda>b. Inr [[], [], []]),
       insert_textbox = (\<lambda>r m f page. Inr (page @ [m])),
       insert_image = (\<lambda>r b k page. Inr (page @ [b])),
       tobytes = (\<lambda>doc. map length doc)\<rparr> :: pystr list fitz"
  have h: "fitz_open ?fz [37, 80, 68, 70] = Inr [[], [], []]" by simp
  show ?thesis
    using apply_edits_to_pdf_skips_out_of_range [OF h,
        of "[(5, [pys ''texto'' \<mapsto> (68, 68, 204, 102)]), (1, [pys ''texto'' \<mapsto> (68, 68, 204, 102)])]"
           "[104, 105]" 11 None True]
      apply_edits_to_pdf_skips_out_of_range [OF h,
        of "[(5, [pys ''texto'' \<mapsto> (68, 68, 204, 102)])]" "[104, 105]" 11 None True]
    by (simp add: apply_edits_to_pdf_def bind_err_def strip_def rstrip_def isspace_def pys_def)
qed

section \<open>Properties of the overlay compositor\<close>

text \<open>
  Every step of \<^const>\<open>build_preview_image\<close> either creates an image or draws on the
  converted copy, whose reference lies beyond the store of the call.
\<close>

lemma keeps_refl: "keeps n heap (x, heap)"
  by (simp add: keeps_def)

lemma keeps_trans:
  assumes "keeps n heap (x, heap1)" "keeps n heap1 r"
  shows "keeps n heap r"
  using assms by (simp add: keeps_def)

lemma keeps_draw_on:
  assumes "n \<le> a"
  shows "keeps n heap (draw_on a f heap)"
  using assms by (simp add: keeps_def draw_on_def split: sum.splits)

lemma keeps_new_image:
  assumes "n \<le> length heap"
  shows "keeps n heap (new_image v heap)"
  using assms by (simp add: keeps_def new_image_def)

lemma keeps_draw_lines:
  assumes "n \<le> img"
  shows "keeps n heap (draw_lines P font img x yy line_h lines heap)"
proof (induction lines arbitrary: yy heap)
  case Nil
  show ?case by (simp add: keeps_refl)
next
  case (Cons line lns)
  obtain r heap1 where d: "draw_on img (pil_text P (x, yy) line font (0, 0, 0, 255)) heap = (r, heap1)"
    by (cases "draw_on img (pil_text P (x, yy) line font (0, 0, 0, 255)) heap")
  have k: "keeps n heap (r, heap1)"
    using keeps_draw_on [OF assms, of heap "pil_text P (x, yy) line font (0, 0, 0, 255)"] d
    by simp
  show ?case
  proof (cases r)
    case (Inl e)
    then show ?thesis using d k by (simp add: keeps_def)
  next
    case (Inr u)
    then show ?thesis
      using d keeps_trans [OF k Cons.IH [of heap1 "yy + line_h"]] by simp
  qed
qed

lemma keeps_text_overlay:
  assumes "n \<le> img"
  shows "keeps n heap
           (text_overlay P font img img_w img_h page_w_pt page_h_pt rect_text_pt message heap)"
proof (cases rect_text_pt)
  case None
  then show ?thesis by (simp add: text_overlay_def keeps_refl)
next
  case (Some r)
  show ?thesis
  proof (cases "strip message = []")
    case True
    then show ?thesis using Some by (simp add: text_overlay_def keeps_refl)
  next
    case False
    show ?thesis
    proof (cases "rect_pt_to_rect_px_f64 r img_w img_h page_w_pt page_h_pt")
      case (Inl e)
      then show ?thesis using Some False by (simp add: text_overlay_def keeps_refl)
    next
      case (Inr px)
      obtain a0 b0 a1 b1 where px: "px = (a0, b0, a1, b1)" by (cases px) auto
      let ?box = "(py_int a0, py_int b0, py_int a1, py_int b1)"
      let ?f = "pil_rectangle P ?box (Some (255, 255, 255, 160)) (65, 105, 225, 255) 3"
      obtain d heap1 where dr: "draw_on img ?f heap = (d, heap1)"
        by (cases "draw_on img ?f heap")
      have k: "keeps n heap (d, heap1)"
        using keeps_draw_on [OF assms, of heap ?f] dr by simp
      show ?thesis
      proof (cases d)
        case (Inl e)
        then show ?thesis
          using Some False Inr px dr k by (simp add: text_overlay_def Let_def keeps_def)
      next
        case du: (Inr u)
        show ?thesis
        proof (cases "overlay_lines (pil_textlength P font) (pil_getbbox P font (pys ''Ag''))
                        ?box message")
          case (Inl e)
          then show ?thesis
            using Some False Inr px dr du k by (simp add: text_overlay_def Let_def keeps_def)
        next
          case ol: (Inr lines)
          have "keeps n heap (draw_lines P font img (py_int a0 + 10) (py_int b0 + 10)
                  (line_height (pil_getbbox P font (pys ''Ag''))) lines heap1)"
            by (rule keeps_trans [OF k keeps_draw_lines [OF assms]])
          then show ?thesis
            using Some False Inr px dr du ol by (simp add: text_overlay_def Let_def)
        qed
      qed
    qed
  qed
qed

lemma keeps_stamp_overlay:
  assumes "n \<le> img" "n \<le> length heap"
  shows "keeps n heap
           (stamp_overlay P img img_w img_h page_w_pt page_h_pt rect_stamp_pt stamp_pil
              keep_ratio heap)"
  using assms
  by (auto simp add: stamp_overlay_def keeps_def draw_on_def new_image_def Let_def
      split: option.splits sum.splits prod.splits)

lemma keeps_length: "keeps n heap (x, heap1) \<Longrightarrow> length heap \<le> length heap1"
  by (simp add: keeps_def)

lemma build_preview_image_frame:
  "keeps (length heap) heap
     (build_preview_image P heap base_img page_w_pt page_h_pt rect_text_pt rect_stamp_pt
        message font_pt stamp_pil keep_ratio)
   \<and> (\<forall>out. fst (build_preview_image P heap base_img page_w_pt page_h_pt rect_text_pt
                    rect_stamp_pt message font_pt stamp_pil keep_ratio) = Inr out \<longrightarrow>
          length heap \<le> out
        \<and> out < length (snd (build_preview_image P heap base_img page_w_pt page_h_pt
                               rect_text_pt rect_stamp_pt message font_pt stamp_pil
                               keep_ratio)))"
proof -
  define n where "n = length heap"
  define h2 where
    "h2 = heap @ [heap ! base_img, pil_convert P ''RGBA'' (heap ! base_img)]"
  define img where "img = Suc (length heap)"
  obtain img_w img_h where
    sz: "pil_size P (pil_convert P ''RGBA'' (heap ! base_img)) = (img_w, img_h)"
    by (cases "pil_size P (pil_convert P ''RGBA'' (heap ! base_img))")
  define font where
    "font = (case pil_truetype P ''DejaVuSans.ttf''
                    (max 10 (py_int (f64 (f64 (real_of_int font_pt)
                                * f64 (f64 (real_of_int img_w) / page_w_pt))))) of
               Some f \<Rightarrow> f | None \<Rightarrow> pil_load_default P)"
  have k2: "keeps n heap (u, h2)" for u :: unit by (simp add: keeps_def h2_def n_def)
  have l2: "length h2 = n + 2" by (simp add: h2_def n_def)
  have ni: "n \<le> img" by (simp add: img_def n_def)
  obtain r3 h3 where t: "text_overlay P font img img_w img_h page_w_pt page_h_pt rect_text_pt
                           message h2 = (r3, h3)"
    by (cases "text_overlay P font img img_w img_h page_w_pt page_h_pt rect_text_pt message h2")
  have k3': "keeps n h2 (r3, h3)" unfolding t [symmetric] by (rule keeps_text_overlay [OF ni])
  have k3: "keeps n heap (r3, h3)" by (rule keeps_trans [OF k2 k3'])
  have l3: "n + 2 \<le> length h3" using keeps_length [OF k3'] l2 by simp
  then have n3: "n \<le> length h3" by simp
  obtain r4 h4 where s: "stamp_overlay P img img_w img_h page_w_pt page_h_pt rect_stamp_pt
                           stamp_pil keep_ratio h3 = (r4, h4)"
    by (cases "stamp_overlay P img img_w img_h page_w_pt page_h_pt rect_stamp_pt stamp_pil
                 keep_ratio h3")
  have k4': "keeps n h3 (r4, h4)" unfolding s [symmetric] by (rule keeps_stamp_overlay [OF ni n3])
  have k4: "keeps n heap (r4, h4)" by (rule keeps_trans [OF k3 k4'])
  have l4: "n + 2 \<le> length h4" using keeps_length [OF k4'] l3 by simp
  have run: "build_preview_image P heap base_img page_w_pt page_h_pt rect_text_pt rect_stamp_pt
               message font_pt stamp_pil keep_ratio =
             (if page_w_pt = 0 then (Inl ZeroDivisionError, h2)
              else case r3 of
                Inl e \<Rightarrow> (Inl e, h3)
              | Inr u \<Rightarrow>
                  (case r4 of
                     Inl e \<Rightarrow> (Inl e, h4)
                   | Inr u \<Rightarrow> (Inr (length h4), h4 @ [pil_convert P ''RGB'' (h4 ! img)])))"
    using t s unfolding h2_def img_def font_def
    by (simp add: build_preview_image_def new_image_def Let_def sz split: sum.splits)
  show ?thesis
    unfolding run n_def [symmetric]
    using k2 k3 k4 l4 by (auto simp add: keeps_def split: sum.splits)
qed

text \<open>
  Claim C9. A call of \<^const>\<open>build_preview_image\<close>, whatever the rectangles, the
  message, the stamp and the flag, and whether it returns or raises, leaves every image
  that existed before the call as it was: the store after the call begins with the store
  before it. So the base image is unchanged, also where the stamp is the base image
  itself: the drawing is done on a copy. The image returned is a new one.
\<close>

theorem build_preview_image_keeps_base:
  "take (length heap)
     (snd (build_preview_image P heap base_img page_w_pt page_h_pt rect_text_pt rect_stamp_pt
             message font_pt stamp_pil keep_ratio)) = heap
   \<and> (base_img < length heap \<longrightarrow>
        snd (build_preview_image P heap base_img page_w_pt page_h_pt rect_text_pt
               rect_stamp_pt message font_pt stamp_pil keep_ratio) ! base_img
          = heap ! base_img)
   \<and> (\<forall>out. fst (build_preview_image P heap base_img page_w_pt page_h_pt rect_text_pt
                    rect_stamp_pt message font_pt stamp_pil keep_ratio) = Inr out \<longrightarrow>
          length heap \<le> out
        \<and> out < length (snd (build_preview_image P heap base_img page_w_pt page_h_pt
                               rect_text_pt rect_stamp_pt message font_pt stamp_pil
                               keep_ratio)))"
proof -
  let ?r = "build_preview_image P heap base_img page_w_pt page_h_pt rect_text_pt rect_stamp_pt
              message font_pt stamp_pil keep_ratio"
  have k: "take (length heap) (snd ?r) = heap"
    using conjunct1 [OF build_preview_image_frame
        [of heap P base_img page_w_pt page_h_pt rect_text_pt rect_stamp_pt message font_pt
          stamp_pil keep_ratio]]
    by (simp add: keeps_def)
  have "snd ?r ! base_img = heap ! base_img" if "base_img < length heap"
  proof -
    have "take (length heap) (snd ?r) ! base_img = snd ?r ! base_img"
      using that by simp
    then show ?thesis using k by simp
  qed
  then show ?thesis
    using k conjunct2 [OF build_preview_image_frame
        [of heap P base_img page_w_pt page_h_pt rect_text_pt rect_stamp_pt message font_pt
          stamp_pil keep_ratio]]
    by blast
qed

text \<open>
  Both overlays on the example instance, the stamp being the base image itself: the copy,
  at reference 2, receives a rectangle, a line of text, a rectangle and the stamp; the
  base image, at reference 0, receives nothing.
\<close>

theorem build_preview_image_keeps_base_witness:
  "build_preview_image pil_log [[0]] 0 100 100 (Some (10, 50, 90, 90)) (Some (10, 10, 60, 40))
     [104, 105] 11 (Some 0) False
     = (Inr 6, [[0], [0], [3, 1, 2, 1, 0], [0], [0], [0], [3, 1, 2, 1, 0]])
   \<and> snd (build_preview_image pil_log [[0]] 0 100 100 (Some (10, 50, 90, 90))
            (Some (10, 10, 60, 40)) [104, 105] 11 (Some 0) False) ! 0 = [0]
   \<and> take 1 (snd (build_preview_image pil_log [[0]] 0 100 100 (Some (10, 50, 90, 90))
                    (Some (10, 10, 60, 40)) [104, 105] 11 (Some 0) False)) = [[0]]"
proof -
  note t = build_preview_image_keeps_base
    [of "[[0]]" pil_log 0 100 100 "Some (10, 50, 90, 90)" "Some (10, 10, 60, 40)"
      "[104, 105]" 11 "Some 0" False]
  have i: "f64 200 = 200" "f64 2 = 2" "f64 20 = 20" "f64 120 = 120" "f64 80 = 80"
    "f64 100 = 100" "f64 180 = 180"
    using f64_of_int [of 200] f64_of_int [of 2] f64_of_int [of 20] f64_of_int [of 120]
      f64_of_int [of 80] f64_of_int [of 100] f64_of_int [of 180]
    by simp_all
  have e: "build_preview_image pil_log [[0]] 0 100 100 (Some (10, 50, 90, 90))
             (Some (10, 10, 60, 40)) [104, 105] 11 (Some 0) False
           = (Inr 6, [[0], [0], [3, 1, 2, 1, 0], [0], [0], [0], [3, 1, 2, 1, 0]])"
    by (simp add: build_preview_image_def text_overlay_def stamp_overlay_def new_image_def
        draw_on_def rect_pt_to_rect_px_f64_def stamp_box_def py_int_def pil_log_def Let_def i
        overlay_lines_def wrap_text_def paragraphs_def line_height_def strip_def rstrip_def
        isspace_def pys_def)
  have a: "take 1 (snd (build_preview_image pil_log [[0]] 0 100 100 (Some (10, 50, 90, 90))
                          (Some (10, 10, 60, 40)) [104, 105] 11 (Some 0) False)) = [[0]]"
    using conjunct1 [OF t] by simp
  have b: "snd (build_preview_image pil_log [[0]] 0 100 100 (Some (10, 50, 90, 90))
                  (Some (10, 10, 60, 40)) [104, 105] 11 (Some 0) False) ! 0 = [0]"
    using conjunct1 [OF conjunct2 [OF t]] by simp
  show ?thesis using e a b by blast
qed

end
